theory Spec2Isabelle
  imports Main "HOL-Library.AList" "HOL-Library.Char_ord" "HOL-Library.List_Lexorder"
begin

section \<open>The graph package: data model\<close>

text \<open>
  The Go package \<^verbatim>\<open>graph\<close> (file \<^verbatim>\<open>graph/graph.go\<close>) stores directed arcs between
  nodes as JSON documents of a Couchbase-like document store, reached through the external
  package \<^verbatim>\<open>db\<close>. Go strings are byte sequences and are modelled as \<^typ>\<open>string\<close>;
  \<^verbatim>\<open>db.ObjType\<close>, \<^verbatim>\<open>NodeId\<close> and \<^verbatim>\<open>RelationVerb\<close> are all declared as
  \<^verbatim>\<open>string\<close>.
\<close>

type_synonym ObjType = string
type_synonym NodeId = string
type_synonym RelationVerb = string

text \<open>
  \<^verbatim>\<open>type Node struct { Type; Id; Name; Photo }\<close>. The field \<^verbatim>\<open>Id\<close> is written
  \<open>Id'\<close> because \<open>Id\<close> is the identity relation of HOL.
\<close>

record Node =
  Type :: ObjType
  Id' :: NodeId
  Name :: string
  Photo :: string

text \<open>
  \<^verbatim>\<open>type Relation map[RelationVerb]bool\<close>. A Go map value is either \<^verbatim>\<open>nil\<close>
  (\<open>None\<close>) or an allocated table (\<open>Some al\<close>), here an association list whose order
  stands for one of the iteration orders Go may choose; the keys of a Go map are unique.
  Reading and deleting work on a nil map, writing to it is a runtime panic.
\<close>

type_synonym Relation = "(RelationVerb \<times> bool) list option"

datatype error =
    NotFound
  | LockContention
  | StoreError
  | NilMapWrite
  | IndexOutOfRange

definition map_range :: "Relation \<Rightarrow> (RelationVerb \<times> bool) list" where
  "map_range m = (case m of None \<Rightarrow> [] | Some al \<Rightarrow> al)"

definition map_index :: "Relation \<Rightarrow> RelationVerb \<Rightarrow> bool option" where
  "map_index m k = (case m of None \<Rightarrow> None | Some al \<Rightarrow> map_of al k)"

definition map_assign :: "Relation \<Rightarrow> RelationVerb \<Rightarrow> bool \<Rightarrow> error + Relation" where
  "map_assign m k v =
     (case m of None \<Rightarrow> Inl NilMapWrite | Some al \<Rightarrow> Inr (Some (AList.update k v al)))"

definition map_delete :: "Relation \<Rightarrow> RelationVerb \<Rightarrow> Relation" where
  "map_delete m k = (case m of None \<Rightarrow> None | Some al \<Rightarrow> Some (AList.delete k al))"

text \<open>\<^verbatim>\<open>type Options struct { Ord int }\<close>\<close>

record Options =
  Ord :: int

text \<open>
  \<^verbatim>\<open>type Arc struct { Type; Tail; Head; Relation; Options; CreatedAt }\<close>. The document
  type field is written \<open>ArcType\<close> (a node has a field \<open>Type\<close> already). A
  \<^verbatim>\<open>time.Time\<close> is an instant on an integer time line; \<^verbatim>\<open>time.Now()\<close> is an input
  of the operations that read the clock.
\<close>

type_synonym Time = int

record Arc =
  ArcType :: ObjType
  Tail :: Node
  Head :: Node
  Relation :: Relation
  Options :: Options
  CreatedAt :: Time

definition OBJ_ARC :: ObjType where
  "OBJ_ARC = ''arc''"

text \<open>The zero values Go gives to a declared variable and to the fields a literal omits.\<close>

definition zero_Node :: Node where
  "zero_Node = \<lparr>Type = [], Id' = [], Name = [], Photo = []\<rparr>"

definition zero_Arc :: Arc where
  "zero_Arc = \<lparr>ArcType = [], Tail = zero_Node, Head = zero_Node, Relation = None,
     Options = \<lparr>Ord = 0\<rparr>, CreatedAt = 0\<rparr>"

subsection \<open>Document interface of an arc\<close>

text \<open>
  \<^verbatim>\<open>db.ObjMeta{Bucket, Type, Id}\<close>; the package only ever uses the bucket
  \<^verbatim>\<open>db.DEFAULT_BUCKET\<close>.
\<close>

datatype Bucket = DEFAULT_BUCKET

record ObjMeta =
  MetaBucket :: Bucket
  MetaType :: ObjType
  MetaId :: string

text \<open>\<^verbatim>\<open>fmt.Sprintf("%s:%s>%s:%s", a.Tail.Type, a.Tail.Id, a.Head.Type, a.Head.Id)\<close>\<close>

definition GetMeta :: "Arc \<Rightarrow> ObjMeta" where
  "GetMeta a = \<lparr>MetaBucket = DEFAULT_BUCKET, MetaType = OBJ_ARC,
     MetaId = Type (Tail a) @ '':'' @ Id' (Tail a) @ ''>'' @ Type (Head a) @ '':'' @ Id' (Head a)\<rparr>"

definition SetType :: "Arc \<Rightarrow> Arc" where
  "SetType a = a\<lparr>ArcType := OBJ_ARC\<rparr>"

text \<open>
  The key of the arc from \<open>tail\<close> to \<open>head\<close>: the \<open>MetaId\<close> of an arc with these two
  endpoints, which is how every operation of the package addresses a document.
\<close>

definition deriveKey :: "Node \<Rightarrow> Node \<Rightarrow> string" where
  "deriveKey tail head = MetaId (GetMeta (zero_Arc\<lparr>Tail := tail, Head := head\<rparr>))"

section \<open>The document store\<close>

text \<open>
  The package \<^verbatim>\<open>db\<close> is an external collaborator. Its state is the set of stored
  documents, addressed by their \<open>MetaId\<close>, and the set of keys under an exclusive lock.
  A lock token (\<^verbatim>\<open>db.Lock\<close>) names the key it locks.
\<close>

record Store =
  docs :: "string \<Rightarrow> Arc option"
  locks :: "string set"

type_synonym Lock = string

definition empty_Store :: Store where
  "empty_Store = \<lparr>docs = (\<lambda>k. None), locks = {}\<rparr>"

text \<open>
  Modelled from the spec: \<^verbatim>\<open>db.Upsert\<close>, which is not part of this repository.
  ``\<open>pointUpsert(doc, ttl) \<rightarrow> error\<close>: unconditional create-or-replace by derived key.''
  The stored document carries the type tag set by the document interface method
  \<open>SetType\<close>.
\<close>

definition db_Upsert :: "Arc \<Rightarrow> int \<Rightarrow> Store \<Rightarrow> Store \<times> error option" where
  "db_Upsert a ttl s = (s\<lparr>docs := (docs s)(MetaId (GetMeta a) \<mapsto> SetType a)\<rparr>, None)"

text \<open>
  Modelled from the spec: \<^verbatim>\<open>db.Get\<close>, which is not part of this repository.
  ``\<open>pointGet(doc) \<rightarrow> error\<close>, failing with \<open>NotFound\<close> when absent.'' On success the
  document passed in holds the stored content.
\<close>

definition db_Get :: "Arc \<Rightarrow> Store \<Rightarrow> Arc \<times> error option" where
  "db_Get a s =
     (case docs s (MetaId (GetMeta a)) of
        None \<Rightarrow> (a, Some NotFound)
      | Some d \<Rightarrow> (d, None))"

text \<open>
  Modelled from the spec: \<^verbatim>\<open>db.GetLock\<close>, which is not part of this repository.
  ``\<open>lockForUpdate(doc) \<rightarrow> (lockToken, error)\<close>: acquires exclusive lock, populating
  \<open>doc\<close> with current (or zero-value, if absent) content''; ``locking a not-yet-existent
  key and returning an empty document rather than failing''; \<open>LockContention\<close> if the
  exclusive lock cannot be acquired. For an absent key the caller's document is left as
  it is: nothing is decoded into it, so the fields the caller did not set keep their
  zero values.
\<close>

definition db_GetLock :: "Arc \<Rightarrow> Store \<Rightarrow> Arc \<times> Lock \<times> Store \<times> error option" where
  "db_GetLock a s =
     (let k = MetaId (GetMeta a) in
      if k \<in> locks s then (a, [], s, Some LockContention)
      else ((case docs s k of None \<Rightarrow> a | Some d \<Rightarrow> d), k,
            s\<lparr>locks := insert k (locks s)\<rparr>, None))"

text \<open>
  Modelled from the spec: \<^verbatim>\<open>db.WriteUnlock\<close>, which is not part of this repository.
  ``\<open>unlockAndWrite(doc, lockToken, ttl) \<rightarrow> error\<close>: atomic write-then-release.'' A token
  that does not hold the document's key is a \<open>StoreError\<close>.
\<close>

definition db_WriteUnlock :: "Arc \<Rightarrow> Lock \<Rightarrow> int \<Rightarrow> Store \<Rightarrow> Store \<times> error option" where
  "db_WriteUnlock a lock ttl s =
     (let k = MetaId (GetMeta a) in
      if lock = k \<and> k \<in> locks s
      then (s\<lparr>docs := (docs s)(k \<mapsto> SetType a), locks := locks s - {k}\<rparr>, None)
      else (s, Some StoreError))"

section \<open>Arc operations\<close>

text \<open>
  \<^verbatim>\<open>func CreateArc(tail, head *Node, r *Relation, opts Options) (err error)\<close>. The
  argument \<open>now\<close> is the value \<^verbatim>\<open>time.Now()\<close> returns during the call. A Go function
  returning \<open>err\<close> is modelled by a result whose last component is \<open>None\<close> for
  \<^verbatim>\<open>err == nil\<close>.
\<close>

definition CreateArc ::
  "Node \<Rightarrow> Node \<Rightarrow> Relation \<Rightarrow> Options \<Rightarrow> Time \<Rightarrow> Store \<Rightarrow> Store \<times> error option" where
  "CreateArc tail head r opts now s =
     (let a = zero_Arc\<lparr>Tail := tail, Head := head, Relation := r, Options := opts,
                CreatedAt := now\<rparr>
      in db_Upsert a 0 s)"

text \<open>
  The arc literal both \<^verbatim>\<open>GetRelation\<close> and \<^verbatim>\<open>UpdateRelation\<close> start from:
  \<^verbatim>\<open>Arc{Tail: Node{Type: tail.Type, Id: tail.Id}, Head: Node{Type: head.Type, Id: head.Id}}\<close>.
\<close>

definition key_Arc :: "Node \<Rightarrow> Node \<Rightarrow> Arc" where
  "key_Arc tail head =
     zero_Arc\<lparr>Tail := zero_Node\<lparr>Type := Type tail, Id' := Id' tail\<rparr>,
              Head := zero_Node\<lparr>Type := Type head, Id' := Id' head\<rparr>\<rparr>"

text \<open>
  \<^verbatim>\<open>func GetRelation(tail, head *Node) (r Relation, err error)\<close>: on an error the named
  result \<open>r\<close> keeps its zero value, the nil map.
\<close>

definition GetRelation :: "Node \<Rightarrow> Node \<Rightarrow> Store \<Rightarrow> Relation \<times> error option" where
  "GetRelation tail head s =
     (case db_Get (key_Arc tail head) s of
        (a, None) \<Rightarrow> (Relation a, None)
      | (a, Some err) \<Rightarrow> (None, Some err))"

text \<open>
  The merge loop of \<^verbatim>\<open>UpdateRelation\<close>,
  \<^verbatim>\<open>for key, val := range *r { if val { la.Relation[key] = val } else { delete(la.Relation, key) } }\<close>,
  over the entries of \<open>*r\<close> in the order the iteration visits them. The assignment
  panics when \<open>la.Relation\<close> is the nil map.
\<close>

fun merge_loop :: "(RelationVerb \<times> bool) list \<Rightarrow> Relation \<Rightarrow> error + Relation" where
  "merge_loop [] rel = Inr rel"
| "merge_loop ((key, val) # rest) rel =
     (if val then (case map_assign rel key val of
                     Inl e \<Rightarrow> Inl e
                   | Inr rel' \<Rightarrow> merge_loop rest rel')
      else merge_loop rest (map_delete rel key))"

text \<open>
  \<^verbatim>\<open>func UpdateRelation(tail, head *Node, r *Relation) (err error)\<close>. A panic in the
  merge loop leaves the function before \<^verbatim>\<open>db.WriteUnlock\<close>: nothing is written and
  the lock stays held.
\<close>

definition UpdateRelation :: "Node \<Rightarrow> Node \<Rightarrow> Relation \<Rightarrow> Store \<Rightarrow> Store \<times> error option" where
  "UpdateRelation tail head r s =
     (case db_GetLock (key_Arc tail head) s of
        (la, lock, s1, Some err) \<Rightarrow> (s1, Some err)
      | (la, lock, s1, None) \<Rightarrow>
          (let la = la\<lparr>Tail := tail, Head := head\<rparr> in
           case merge_loop (map_range r) (Relation la) of
             Inl e \<Rightarrow> (s1, Some e)
           | Inr rel \<Rightarrow> db_WriteUnlock (la\<lparr>Relation := rel\<rparr>) lock 0 s1))"

section \<open>Traversal queries\<close>

text \<open>
  Go's \<^verbatim>\<open>int\<close> is a 64-bit signed integer on the platforms the store runs on: the
  sum of two of them wraps around.
\<close>

definition wrap64 :: "int \<Rightarrow> int" where
  "wrap64 i = (i + 2 ^ 63) mod 2 ^ 64 - 2 ^ 63"

text \<open>The verb \<^verbatim>\<open>%d\<close> of \<^verbatim>\<open>fmt.Sprintf\<close>: the decimal numeral of an integer.\<close>

fun digits :: "nat \<Rightarrow> string" where
  "digits n =
     (if n < 10 then [''0123456789'' ! n]
      else digits (n div 10) @ [''0123456789'' ! (n mod 10)])"

definition fmt_d :: "int \<Rightarrow> string" where
  "fmt_d i = (if i < 0 then CHR ''-'' # digits (nat (- i)) else digits (nat i))"

text \<open>
  \<^verbatim>\<open>type NodeQueryResult struct { Results []Node; NextOffset string; PrevOffset string }\<close>
\<close>

record NodeQueryResult =
  Results :: "Node list"
  NextOffset :: string
  PrevOffset :: string

definition zero_NodeQueryResult :: NodeQueryResult where
  "zero_NodeQueryResult = \<lparr>Results = [], NextOffset = [], PrevOffset = []\<rparr>"

text \<open>
  \<^verbatim>\<open>func (qr *NodeQueryResult) GetRowPtr(index int) interface{}\<close>. The pointer
  \<^verbatim>\<open>&qr.Results[index]\<close> is the position \<open>index\<close> of \<open>Results\<close>, \<^verbatim>\<open>nil\<close> is
  \<open>None\<close>; a negative index passes the first test and faults in the index expression.
\<close>

definition GetRowPtr :: "NodeQueryResult \<Rightarrow> int \<Rightarrow> error + NodeQueryResult \<times> nat option" where
  "GetRowPtr qr index =
     (if index < int (length (Results qr)) then
        (if index < 0 then Inl IndexOutOfRange else Inr (qr, Some (nat index)))
      else if index = int (length (Results qr)) then
        Inr (qr\<lparr>Results := Results qr @ [zero_Node]\<rparr>, Some (nat index))
      else Inr (qr, None))"

text \<open>
  The parts of the package \<^verbatim>\<open>db\<close> that the traversal functions use are not part of
  this repository and are parameters of the model: the name of a bucket
  (\<^verbatim>\<open>db.BucketName\<close>), the constant \<^verbatim>\<open>db.QUERY_LIMIT_MAX\<close>, and the answer of the
  store to a statement run with a limit and an offset, the rows of the page or an error.
\<close>

record Db =
  BucketName :: "Bucket \<Rightarrow> string"
  QUERY_LIMIT_MAX :: int
  Scan :: "Bucket \<Rightarrow> string \<Rightarrow> int \<Rightarrow> int \<Rightarrow> error + Node list"

text \<open>
  Modelled from the spec: \<^verbatim>\<open>db.ExecPagedQuery\<close>, which is not part of this repository.
  ``\<open>executePagedQuery(filterExpression, limit, offset) \<rightarrow> (rows, size, error)\<close>''. The rows
  the store answers are decoded one by one into the row the result object hands out
  through its method \<open>GetRowPtr\<close>, and their number is returned.
\<close>

fun decode_rows :: "NodeQueryResult \<Rightarrow> int \<Rightarrow> Node list \<Rightarrow> error + NodeQueryResult" where
  "decode_rows qr index [] = Inr qr"
| "decode_rows qr index (row # rows) =
     (case GetRowPtr qr index of
        Inl e \<Rightarrow> Inl e
      | Inr (qr', None) \<Rightarrow> Inl StoreError
      | Inr (qr', Some p) \<Rightarrow>
          decode_rows (qr'\<lparr>Results := (Results qr')[p := row]\<rparr>) (index + 1) rows)"

definition ExecPagedQuery ::
  "Db \<Rightarrow> Bucket \<Rightarrow> NodeQueryResult \<Rightarrow> string \<Rightarrow> int \<Rightarrow> int
     \<Rightarrow> NodeQueryResult \<times> int \<times> error option" where
  "ExecPagedQuery db bucket qr stmt limit offset =
     (case Scan db bucket stmt limit offset of
        Inl e \<Rightarrow> (qr, 0, Some e)
      | Inr rows \<Rightarrow>
          (case decode_rows qr 0 rows of
             Inl e \<Rightarrow> (qr, 0, Some e)
           | Inr qr' \<Rightarrow> (qr', int (length rows), None)))"

text \<open>
  Modelled from the spec: a store that answers a statement from the complete list of its
  result rows, ``returning up to \<open>limit\<close> rows starting at \<open>offset\<close>''. A negative limit
  or offset is a malformed query (\<open>StoreError\<close>).
\<close>

definition paged :: "Node list \<Rightarrow> int \<Rightarrow> int \<Rightarrow> error + Node list" where
  "paged rows limit offset =
     (if limit < 0 \<or> offset < 0 then Inl StoreError
      else Inr (take (nat limit) (drop (nat offset) rows)))"

text \<open>The four N1QL statements, as \<^verbatim>\<open>fmt.Sprintf\<close> builds them.\<close>

definition QueryTails_stmt :: "Db \<Rightarrow> Node \<Rightarrow> RelationVerb \<Rightarrow> string" where
  \<open>QueryTails_stmt db head r =
     ''SELECT tail.* FROM `'' @ BucketName db DEFAULT_BUCKET @ ''` WHERE type="'' @ OBJ_ARC
     @ ''" AND head.type="'' @ Type head @ ''" AND head.id="'' @ Id' head
     @ ''" AND relation.'' @ r @ ''=true ORDER BY tail.name''\<close>

definition QueryHeads_stmt :: "Db \<Rightarrow> Node \<Rightarrow> RelationVerb \<Rightarrow> string" where
  \<open>QueryHeads_stmt db tail r =
     ''SELECT head.* FROM `'' @ BucketName db DEFAULT_BUCKET @ ''` WHERE type="'' @ OBJ_ARC
     @ ''" AND tail.type="'' @ Type tail @ ''" AND tail.id="'' @ Id' tail
     @ ''" AND relation.'' @ r @ ''=true ORDER BY head.name''\<close>

definition ForEachTail_stmt :: "Db \<Rightarrow> Node \<Rightarrow> RelationVerb \<Rightarrow> string" where
  \<open>ForEachTail_stmt db head r =
     ''SELECT tail.* FROM `'' @ BucketName db DEFAULT_BUCKET @ ''` WHERE type="'' @ OBJ_ARC
     @ ''" AND head.type="'' @ Type head @ ''" AND head.id="'' @ Id' head
     @ ''" AND relation.'' @ r @ ''=true''\<close>

definition ForEachHead_stmt :: "Db \<Rightarrow> Node \<Rightarrow> RelationVerb \<Rightarrow> string" where
  \<open>ForEachHead_stmt db tail r =
     ''SELECT head.* FROM `'' @ BucketName db DEFAULT_BUCKET @ ''` WHERE type="'' @ OBJ_ARC
     @ ''" AND tail.type="'' @ Type tail @ ''" AND tail.id="'' @ Id' tail
     @ ''" AND relation.'' @ r @ ''=true''\<close>

text \<open>
  The slice expression \<^verbatim>\<open>qr.Results[:size]\<close>; it faults when the bound is negative or
  beyond the slice (the capacity of a slice is not modelled: it is taken to be its
  length).
\<close>

definition slice_to :: "Node list \<Rightarrow> int \<Rightarrow> error + Node list" where
  "slice_to xs sz =
     (if 0 \<le> sz \<and> sz \<le> int (length xs) then Inr (take (nat sz) xs)
      else Inl IndexOutOfRange)"

text \<open>
  The body shared, word for word, by \<^verbatim>\<open>QueryTails\<close> and \<^verbatim>\<open>QueryHeads\<close> after the
  statement is built.
\<close>

definition Query_page ::
  "Db \<Rightarrow> NodeQueryResult \<Rightarrow> string \<Rightarrow> int \<Rightarrow> int \<Rightarrow> NodeQueryResult \<times> int \<times> error option" where
  "Query_page db qr queryStmt limit offset =
     (case ExecPagedQuery db DEFAULT_BUCKET qr queryStmt limit offset of
        (qr1, sz, Some err) \<Rightarrow> (qr1, sz, Some err)
      | (qr1, sz, None) \<Rightarrow>
          (case slice_to (Results qr1) sz of
             Inl e \<Rightarrow> (qr1, sz, Some e)
           | Inr res \<Rightarrow>
               (qr1\<lparr>Results := res, PrevOffset := fmt_d offset,
                     NextOffset := fmt_d (wrap64 (offset + sz))\<rparr>, sz, None)))"

text \<open>
  \<^verbatim>\<open>func (qr *NodeQueryResult) QueryTails(head *Node, r RelationVerb, limit, offset int) (size int, err error)\<close>
  and \<^verbatim>\<open>QueryHeads\<close>; the receiver is returned as updated.
\<close>

definition QueryTails ::
  "Db \<Rightarrow> NodeQueryResult \<Rightarrow> Node \<Rightarrow> RelationVerb \<Rightarrow> int \<Rightarrow> int
     \<Rightarrow> NodeQueryResult \<times> int \<times> error option" where
  "QueryTails db qr head r limit offset =
     Query_page db qr (QueryTails_stmt db head r) limit offset"

definition QueryHeads ::
  "Db \<Rightarrow> NodeQueryResult \<Rightarrow> Node \<Rightarrow> RelationVerb \<Rightarrow> int \<Rightarrow> int
     \<Rightarrow> NodeQueryResult \<times> int \<times> error option" where
  "QueryHeads db qr tail r limit offset =
     Query_page db qr (QueryHeads_stmt db tail r) limit offset"

text \<open>
  The variable \<^verbatim>\<open>size\<close> of the source is written \<open>sz\<close> (\<open>size\<close> is a constant of
  HOL). The iterators have no result; what they do is the sequence of calls of the callback,
  \<open>cb_calls\<close>, and the sequence of paged queries sent to the store, \<open>queries\<close>, each
  with its limit and offset.
\<close>

record Trace =
  cb_calls :: "Node list"
  queries :: "(int \<times> int) list"

definition zero_Trace :: Trace where
  "zero_Trace = \<lparr>cb_calls = [], queries = []\<rparr>"

text \<open>
  \<^verbatim>\<open>for index := 0; index < size; index++ { cb(&qr.Results[index]) }\<close>: the nodes passed
  to the callback, or the fault of indexing beyond the slice.
\<close>

definition for_index :: "NodeQueryResult \<Rightarrow> int \<Rightarrow> error + Node list" where
  "for_index qr sz =
     (if sz \<le> int (length (Results qr)) then Inr (take (nat sz) (Results qr))
      else Inl IndexOutOfRange)"

text \<open>
  The loop \<^verbatim>\<open>for size == db.QUERY_LIMIT_MAX { ... }\<close> of \<^verbatim>\<open>ForEachTail\<close> and
  \<^verbatim>\<open>ForEachHead\<close>, the same text in both. It need not terminate, so the result is
  \<open>None\<close> when it does not; a result \<open>Some (t, f)\<close> is the trace \<open>t\<close> and the runtime
  fault \<open>f\<close>, if any. A failed query ends the loop by a plain \<^verbatim>\<open>return\<close>.
\<close>

partial_function (option) ForEach_loop ::
  "Db \<Rightarrow> string \<Rightarrow> int \<Rightarrow> int \<Rightarrow> Trace \<Rightarrow> (Trace \<times> error option) option" where
  "ForEach_loop db queryStmt sz offset t =
     (if sz = QUERY_LIMIT_MAX db then
        (case ExecPagedQuery db DEFAULT_BUCKET zero_NodeQueryResult queryStmt sz offset of
           (qr, sz', Some err) \<Rightarrow> Some (t\<lparr>queries := queries t @ [(sz, offset)]\<rparr>, None)
         | (qr, sz', None) \<Rightarrow>
             (case for_index qr sz' of
                Inl e \<Rightarrow> Some (t\<lparr>queries := queries t @ [(sz, offset)]\<rparr>, Some e)
              | Inr nodes \<Rightarrow>
                  ForEach_loop db queryStmt sz' (wrap64 (offset + sz'))
                    (t\<lparr>cb_calls := cb_calls t @ nodes,
                       queries := queries t @ [(sz, offset)]\<rparr>)))
      else Some (t, None))"

text \<open>
  \<^verbatim>\<open>func ForEachTail(head *Node, r RelationVerb, cb func(*Node))\<close> and
  \<^verbatim>\<open>ForEachHead\<close>: \<^verbatim>\<open>size := db.QUERY_LIMIT_MAX; offset := 0\<close>, then the loop.
\<close>

definition ForEachTail :: "Db \<Rightarrow> Node \<Rightarrow> RelationVerb \<Rightarrow> (Trace \<times> error option) option" where
  "ForEachTail db head r =
     ForEach_loop db (ForEachTail_stmt db head r) (QUERY_LIMIT_MAX db) 0 zero_Trace"

definition ForEachHead :: "Db \<Rightarrow> Node \<Rightarrow> RelationVerb \<Rightarrow> (Trace \<times> error option) option" where
  "ForEachHead db tail r =
     ForEach_loop db (ForEachHead_stmt db tail r) (QUERY_LIMIT_MAX db) 0 zero_Trace"

subsection \<open>The queries of the traversal functions\<close>

text \<open>
  Modelled from the spec: the query language of the store, which is not part of this
  repository. ``All four operations share one filter shape:
  \<open>type = arc AND <fixed-endpoint>.kind = K AND <fixed-endpoint>.id = ID AND relations.<verb> = true\<close>,
  where \<open><fixed-endpoint>\<close> is \<open>head\<close> when querying tails (incoming) and \<open>tail\<close> when
  querying heads (outgoing)''; a paged query ``executes the filter projecting the
  opposite endpoint's fields, ordered by that endpoint's \<open>name\<close> ascending''. A query of
  this shape names the endpoint it selects, the bucket, the document type, the kind and
  id of the fixed endpoint and the verb, and says whether the rows are to be ordered by
  the name of the selected endpoint. \<open>Select_text\<close> is its N1QL text, and
  \<open>Select_rows\<close> the rows it has over the documents of the bucket, listed in the order
  in which the bucket holds them unless the query orders them.
\<close>

datatype Endpoint = TailEnd | HeadEnd

record Select =
  SelEndpoint :: Endpoint
  SelBucket :: string
  SelType :: ObjType
  SelKind :: ObjType
  SelId :: NodeId
  SelVerb :: RelationVerb
  SelOrdered :: bool

fun endpoint_name :: "Endpoint \<Rightarrow> string" where
  "endpoint_name TailEnd = ''tail''"
| "endpoint_name HeadEnd = ''head''"

fun fixed_endpoint :: "Endpoint \<Rightarrow> Endpoint" where
  "fixed_endpoint TailEnd = HeadEnd"
| "fixed_endpoint HeadEnd = TailEnd"

fun endpoint_of :: "Endpoint \<Rightarrow> Arc \<Rightarrow> Node" where
  "endpoint_of TailEnd a = Tail a"
| "endpoint_of HeadEnd a = Head a"

definition Select_text :: "Select \<Rightarrow> string" where
  \<open>Select_text q =
     ''SELECT '' @ endpoint_name (SelEndpoint q) @ ''.* FROM `'' @ SelBucket q
     @ ''` WHERE type="'' @ SelType q
     @ ''" AND '' @ endpoint_name (fixed_endpoint (SelEndpoint q)) @ ''.type="'' @ SelKind q
     @ ''" AND '' @ endpoint_name (fixed_endpoint (SelEndpoint q)) @ ''.id="'' @ SelId q
     @ ''" AND relation.'' @ SelVerb q @ ''=true''
     @ (if SelOrdered q then '' ORDER BY '' @ endpoint_name (SelEndpoint q) @ ''.name''
        else [])\<close>

definition Select_match :: "Select \<Rightarrow> Arc \<Rightarrow> bool" where
  "Select_match q a =
     (ArcType a = SelType q
      \<and> Type (endpoint_of (fixed_endpoint (SelEndpoint q)) a) = SelKind q
      \<and> Id' (endpoint_of (fixed_endpoint (SelEndpoint q)) a) = SelId q
      \<and> map_index (Relation a) (SelVerb q) = Some True)"

definition Select_rows :: "Arc list \<Rightarrow> Select \<Rightarrow> Node list" where
  "Select_rows arcs q =
     (let rows = map (endpoint_of (SelEndpoint q)) (filter (Select_match q) arcs)
      in if SelOrdered q then sort_key Name rows else rows)"

section \<open>Notions used in the statements\<close>

text \<open>
  A node is separator-free when its kind contains no \<open>:\<close> and its id contains no
  \<open>>\<close>, the two characters \<open>GetMeta\<close> puts between the fields. The ids made by
  \<^verbatim>\<open>NewNodeId\<close> are decimal numerals and are of this form.
\<close>

definition separator_free :: "Node \<Rightarrow> bool" where
  "separator_free n = (CHR '':'' \<notin> set (Type n) \<and> CHR ''>'' \<notin> set (Id' n))"

text \<open>A Go \<^verbatim>\<open>int\<close> holds the integers from \<open>- 2^63\<close> to \<open>2^63 - 1\<close>.\<close>

definition int64 :: "int \<Rightarrow> bool" where
  "int64 i = (- (2 ^ 63) \<le> i \<and> i < 2 ^ 63)"

text \<open>
  A store in which every failed query is replaced by the answer of an exhausted result
  set, no rows.
\<close>

definition exhausted_for_error :: "Db \<Rightarrow> Db" where
  "exhausted_for_error db =
     db\<lparr>Scan := (\<lambda>bucket stmt limit offset.
            case Scan db bucket stmt limit offset of
              Inl e \<Rightarrow> Inr []
            | Inr rows \<Rightarrow> Inr rows)\<rparr>"

text \<open>
  The queries of an iteration with page size \<open>m\<close> that starts at the offset \<open>k\<close> and has
  \<open>n\<close> rows left to visit: the limit is \<open>m\<close> each time, and the offsets are \<open>k\<close>,
  \<open>k + m\<close>, \<open>k + 2 * m\<close>, \<dots>, up to the first page that is not full.
\<close>

definition page_queries :: "int \<Rightarrow> nat \<Rightarrow> nat \<Rightarrow> (int \<times> int) list" where
  "page_queries m k n = map (\<lambda>i. (m, int k + int i * m)) [0..<Suc (n div nat m)]"

section \<open>Example data\<close>

text \<open>Three users, in the order of their names, and two nodes whose id shows the separators.\<close>

definition user1 :: Node where
  "user1 = \<lparr>Type = ''user'', Id' = ''1'', Name = ''Ann'', Photo = []\<rparr>"

definition user2 :: Node where
  "user2 = \<lparr>Type = ''user'', Id' = ''2'', Name = ''Bob'', Photo = []\<rparr>"

definition user3 :: Node where
  "user3 = \<lparr>Type = ''user'', Id' = ''3'', Name = ''Cid'', Photo = []\<rparr>"


definition node_ab_long :: Node where
  "node_ab_long = \<lparr>Type = ''a'', Id' = ''b>a:b'', Name = [], Photo = []\<rparr>"

definition node_ab :: Node where
  "node_ab = \<lparr>Type = ''a'', Id' = ''b'', Name = [], Photo = []\<rparr>"

text \<open>
  A store holding the arc from \<open>user1\<close> to \<open>user2\<close> with the relation set
  \<open>{like: true, view: true}\<close>, created at time \<open>1\<close>; the same arc with the relation set
  \<open>{like: false}\<close>; and three deltas.
\<close>

definition store_likes :: Store where
  "store_likes =
     fst (CreateArc user1 user2 (Some [(''like'', True), (''view'', True)]) \<lparr>Ord = 0\<rparr> 1
            empty_Store)"

definition store_like_false :: Store where
  "store_like_false =
     fst (CreateArc user1 user2 (Some [(''like'', False)]) \<lparr>Ord = 0\<rparr> 1 empty_Store)"

definition delta_follow_unlike :: Relation where
  "delta_follow_unlike = Some [(''follow'', True), (''like'', False)]"

definition follow_true :: Relation where
  "follow_true = Some [(''follow'', True)]"

definition follow_false :: Relation where
  "follow_false = Some [(''follow'', False)]"


text \<open>
  A store with page size 2 that fails every query, and three variants of it: one that
  orders the rows by name for the statement of \<open>QueryTails\<close>, which asks for it, and
  lists them as they are stored, Bob before Ann, for every other statement; one whose
  first page holds Ann and Bob and whose every later query fails; and one that has these
  two rows and no more.
\<close>

definition db_default :: Db where
  "db_default = \<lparr>BucketName = (\<lambda>bucket. ''default''), QUERY_LIMIT_MAX = 2,
     Scan = (\<lambda>bucket stmt limit offset. Inl StoreError)\<rparr>"


definition db_failing :: Db where
  "db_failing =
     db_default\<lparr>Scan := (\<lambda>bucket stmt limit offset.
       if offset = 0 then Inr [user1, user2] else Inl StoreError)\<rparr>"

definition db_two_rows :: Db where
  "db_two_rows = db_default\<lparr>Scan := (\<lambda>bucket stmt. paged [user1, user2])\<rparr>"

text \<open>
  Four arcs with the verb \<open>follow\<close>, from Bob and from Ann to Cid and back, in the
  order in which the bucket holds them; the ordered queries for the tails and for the
  heads of Cid; and a store with page size 2 that answers these two queries from the four
  arcs and fails every other statement.
\<close>

definition follow_arc :: "Node \<Rightarrow> Node \<Rightarrow> Arc" where
  "follow_arc tail head =
     \<lparr>ArcType = ''arc'', Tail = tail, Head = head, Relation = Some [(''follow'', True)],
      Options = \<lparr>Ord = 0\<rparr>, CreatedAt = 1\<rparr>"

definition follow_arcs :: "Arc list" where
  "follow_arcs = [follow_arc user2 user3, follow_arc user3 user2, follow_arc user1 user3,
     follow_arc user3 user1]"

definition tails_of_user3 :: Select where
  "tails_of_user3 = \<lparr>SelEndpoint = TailEnd, SelBucket = ''default'', SelType = ''arc'',
     SelKind = ''user'', SelId = ''3'', SelVerb = ''follow'', SelOrdered = True\<rparr>"

definition heads_of_user3 :: Select where
  "heads_of_user3 = \<lparr>SelEndpoint = HeadEnd, SelBucket = ''default'', SelType = ''arc'',
     SelKind = ''user'', SelId = ''3'', SelVerb = ''follow'', SelOrdered = True\<rparr>"

definition db_follow :: Db where
  "db_follow =
     db_default\<lparr>Scan := (\<lambda>bucket stmt.
       if stmt = Select_text tails_of_user3 then paged (Select_rows follow_arcs tails_of_user3)
       else if stmt = Select_text heads_of_user3
       then paged (Select_rows follow_arcs heads_of_user3)
       else (\<lambda>limit offset. Inl StoreError))\<rparr>"

section \<open>Key derivation\<close>

lemma deriveKey_eq:
  "deriveKey tail head =
     Type tail @ CHR '':'' # (Id' tail @ CHR ''>'' # (Type head @ CHR '':'' # Id' head))"
  by (simp add: deriveKey_def GetMeta_def)

lemma split_at_separator:
  "c \<notin> set xs \<Longrightarrow> c \<notin> set ys \<Longrightarrow> xs @ c # xs' = ys @ c # ys' \<Longrightarrow> xs = ys \<and> xs' = ys'"
proof (induction xs arbitrary: ys)
  case Nil
  then show ?case by (cases ys) auto
next
  case (Cons x xs)
  then show ?case by (cases ys) auto
qed

lemma deriveKey_fields:
  assumes "separator_free x" and "separator_free x'"
    and "CHR '':'' \<notin> set (Type y)" and "CHR '':'' \<notin> set (Type y')"
    and "deriveKey x y = deriveKey x' y'"
  shows "Type x = Type x' \<and> Id' x = Id' x' \<and> Type y = Type y' \<and> Id' y = Id' y'"
proof -
  from assms(1,2) have c: "CHR '':'' \<notin> set (Type x)" "CHR '':'' \<notin> set (Type x')"
    and g: "CHR ''>'' \<notin> set (Id' x)" "CHR ''>'' \<notin> set (Id' x')"
    by (simp_all add: separator_free_def)
  from assms(5) have k:
    "Type x @ CHR '':'' # (Id' x @ CHR ''>'' # (Type y @ CHR '':'' # Id' y))
       = Type x' @ CHR '':'' # (Id' x' @ CHR ''>'' # (Type y' @ CHR '':'' # Id' y'))"
    by (simp only: deriveKey_eq)
  from split_at_separator [OF c k]
  have 1: "Type x = Type x'"
    and r1: "Id' x @ CHR ''>'' # (Type y @ CHR '':'' # Id' y)
               = Id' x' @ CHR ''>'' # (Type y' @ CHR '':'' # Id' y')"
    by blast+
  from split_at_separator [OF g r1]
  have 2: "Id' x = Id' x'"
    and r2: "Type y @ CHR '':'' # Id' y = Type y' @ CHR '':'' # Id' y'"
    by blast+
  from split_at_separator [OF assms(3,4) r2]
  have "Type y = Type y'" and "Id' y = Id' y'"
    by blast+
  with 1 2 show ?thesis by blast
qed

text \<open>
  Claim C2, as the code has it. The key is a function of the four fields
  \<open>(tail.kind, tail.id, head.kind, head.id)\<close> only. It is the plain concatenation of
  the fields with the separators \<open>:\<close> and \<open>>\<close>, without escaping, so it is injective
  on separator-free nodes, and on such nodes the keys of \<open>(A, B)\<close> and \<open>(B, A)\<close>
  differ whenever \<open>A\<close> and \<open>B\<close> differ in kind or id.
\<close>

theorem deriveKey_injective_on_separator_free:
  assumes "separator_free A" and "separator_free B"
    and "separator_free C" and "separator_free D"
  shows "(Type A = Type C \<and> Id' A = Id' C \<and> Type B = Type D \<and> Id' B = Id' D
            \<longrightarrow> GetMeta (a\<lparr>Tail := A, Head := B\<rparr>) = GetMeta (c\<lparr>Tail := C, Head := D\<rparr>))
       \<and> (deriveKey A B = deriveKey C D
            \<longrightarrow> Type A = Type C \<and> Id' A = Id' C \<and> Type B = Type D \<and> Id' B = Id' D)
       \<and> (Type A \<noteq> Type B \<or> Id' A \<noteq> Id' B \<longrightarrow> deriveKey A B \<noteq> deriveKey B A)"
proof (intro conjI impI)
  assume "Type A = Type C \<and> Id' A = Id' C \<and> Type B = Type D \<and> Id' B = Id' D"
  then show "GetMeta (a\<lparr>Tail := A, Head := B\<rparr>) = GetMeta (c\<lparr>Tail := C, Head := D\<rparr>)"
    by (simp add: GetMeta_def)
next
  assume e: "deriveKey A B = deriveKey C D"
  from assms(2,4) have "CHR '':'' \<notin> set (Type B)" "CHR '':'' \<notin> set (Type D)"
    by (simp_all add: separator_free_def)
  from deriveKey_fields [OF assms(1) assms(3) this e]
  show "Type A = Type C" "Id' A = Id' C" "Type B = Type D" "Id' B = Id' D"
    by blast+
next
  assume d: "Type A \<noteq> Type B \<or> Id' A \<noteq> Id' B"
  show "deriveKey A B \<noteq> deriveKey B A"
  proof
    assume e: "deriveKey A B = deriveKey B A"
    from assms(1,2) have "CHR '':'' \<notin> set (Type B)" "CHR '':'' \<notin> set (Type A)"
      by (simp_all add: separator_free_def)
    from deriveKey_fields [OF assms(1) assms(2) this e] d
    show False by blast
  qed
qed

theorem deriveKey_injective_witness:
  "separator_free user1 \<and> separator_free user2 \<and> Id' user1 \<noteq> Id' user2
   \<and> deriveKey user1 user2 \<noteq> deriveKey user2 user1
   \<and> deriveKey user1 user2 = ''user:1>user:2''"
proof -
  have s: "separator_free user1" "separator_free user2"
    by (simp_all add: separator_free_def user1_def user2_def)
  have d: "Id' user1 \<noteq> Id' user2"
    by (simp add: user1_def user2_def)
  from deriveKey_injective_on_separator_free [OF s(1) s(2) s(1) s(2)] d
  have "deriveKey user1 user2 \<noteq> deriveKey user2 user1"
    by blast
  moreover have "deriveKey user1 user2 = ''user:1>user:2''"
    by (simp add: deriveKey_eq user1_def user2_def)
  ultimately show ?thesis using s d by blast
qed

text \<open>
  The claim as the spec states it fails: a kind or an id may contain the separators. The
  nodes \<open>(a, b>a:b)\<close> and \<open>(a, b)\<close> are different in their ids, and the arc between
  them has the same key in both directions.
\<close>

theorem deriveKey_collision:
  "node_ab_long \<noteq> node_ab
   \<and> (Type node_ab_long, Id' node_ab_long, Type node_ab, Id' node_ab)
       \<noteq> (Type node_ab, Id' node_ab, Type node_ab_long, Id' node_ab_long)
   \<and> deriveKey node_ab_long node_ab = deriveKey node_ab node_ab_long"
  by (simp add: deriveKey_eq node_ab_long_def node_ab_def)

section \<open>Relation merge\<close>

lemma MetaId_GetMeta: "MetaId (GetMeta a) = deriveKey (Tail a) (Head a)"
  by (simp add: deriveKey_def GetMeta_def)

lemma deriveKey_key_Arc:
  "deriveKey (Tail (key_Arc tail head)) (Head (key_Arc tail head)) = deriveKey tail head"
  by (simp add: key_Arc_def deriveKey_eq zero_Arc_def zero_Node_def)

lemma merge_loop_index:
  "distinct (map fst al) \<Longrightarrow> merge_loop al rel = Inr rel' \<Longrightarrow>
   map_index rel' v =
     (case map_of al v of
        None \<Rightarrow> map_index rel v
      | Some True \<Rightarrow> Some True
      | Some False \<Rightarrow> None)"
proof (induction al arbitrary: rel)
  case Nil
  then show ?case by simp
next
  case (Cons p al)
  obtain key val where p: "p = (key, val)" by (cases p)
  from Cons.prems(1) p have d: "distinct (map fst al)" and n: "key \<notin> fst ` set al"
    by simp_all
  from n have m: "map_of al key = None"
    by (simp add: map_of_eq_None_iff)
  show ?case
  proof (cases val)
    case True
    with Cons.prems(2) p obtain rel1 where
      a: "map_assign rel key True = Inr rel1" and l: "merge_loop al rel1 = Inr rel'"
      by (auto split: sum.splits)
    from a have i: "map_index rel1 v = (if v = key then Some True else map_index rel v)"
      by (auto simp: map_assign_def map_index_def update_conv' split: option.splits)
    from Cons.IH [OF d l] i m p True show ?thesis
      by (auto split: option.splits bool.splits)
  next
    case False
    with Cons.prems(2) p have l: "merge_loop al (map_delete rel key) = Inr rel'"
      by simp
    have i: "map_index (map_delete rel key) v = (if v = key then None else map_index rel v)"
      by (auto simp: map_delete_def map_index_def delete_conv' split: option.splits)
    from Cons.IH [OF d l] i m p False show ?thesis
      by (auto split: option.splits bool.splits)
  qed
qed

lemma UpdateRelation_success:
  assumes "UpdateRelation tail head delta s = (s', None)"
  shows "\<exists>rel. merge_loop (map_range delta)
              (Relation (case docs s (deriveKey tail head) of
                           None \<Rightarrow> key_Arc tail head | Some d \<Rightarrow> d)) = Inr rel
          \<and> docs s' (deriveKey tail head)
              = Some (SetType ((case docs s (deriveKey tail head) of
                           None \<Rightarrow> key_Arc tail head | Some d \<Rightarrow> d)
                        \<lparr>Tail := tail, Head := head, Relation := rel\<rparr>))"
  using assms
  by (auto simp: UpdateRelation_def db_GetLock_def db_WriteUnlock_def Let_def
      MetaId_GetMeta deriveKey_key_Arc split: if_splits sum.splits option.splits)


lemma merge_loop_nil:
  "merge_loop al None = (if \<exists>v. (v, True) \<in> set al then Inl NilMapWrite else Inr None)"
  by (induction al) (auto simp: map_assign_def map_delete_def)

lemma UpdateRelation_nil_relation:
  assumes "db_GetLock (key_Arc tail head) s = (la, lock, s1, None)"
    and "Relation la = None" and "(v, True) \<in> set (map_range delta)"
  shows "UpdateRelation tail head delta s = (s1, Some NilMapWrite)"
  using assms by (auto simp: UpdateRelation_def merge_loop_nil)

lemmas store_defs =
  empty_Store_def db_Upsert_def db_Get_def db_GetLock_def db_WriteUnlock_def
  CreateArc_def GetRelation_def UpdateRelation_def key_Arc_def zero_Arc_def zero_Node_def
  MetaId_GetMeta SetType_def OBJ_ARC_def deriveKey_eq
  map_range_def map_index_def map_assign_def map_delete_def Let_def

text \<open>
  Claim C1, as the code has it. For an arc that exists and a delta, a successful
  \<open>UpdateRelation tail head delta\<close> stores a relation set in which every verb the delta
  maps to true is present with value true, every verb the delta maps to false is absent,
  and every verb the delta does not mention is as it was before. The merge itself adds no
  false entry: when the relation set read under the lock has none, the stored one has
  none. (The hypothesis on \<open>delta\<close> is the uniqueness of the keys of a Go map.)
\<close>

theorem UpdateRelation_merges_delta:
  assumes "docs s (deriveKey tail head) = Some a"
    and "distinct (map fst (map_range delta))"
    and "UpdateRelation tail head delta s = (s', None)"
  shows "\<exists>a'. docs s' (deriveKey tail head) = Some a'
     \<and> (\<forall>v. map_index delta v = Some True \<longrightarrow> map_index (Relation a') v = Some True)
     \<and> (\<forall>v. map_index delta v = Some False \<longrightarrow> map_index (Relation a') v = None)
     \<and> (\<forall>v. map_index delta v = None \<longrightarrow> map_index (Relation a') v = map_index (Relation a) v)
     \<and> ((\<forall>v. map_index (Relation a) v \<noteq> Some False)
          \<longrightarrow> (\<forall>v. map_index (Relation a') v \<noteq> Some False))"
proof -
  from UpdateRelation_success [OF assms(3)] assms(1) obtain rel where
    m: "merge_loop (map_range delta) (Relation a) = Inr rel"
    and d: "docs s' (deriveKey tail head)
              = Some (SetType (a\<lparr>Tail := tail, Head := head, Relation := rel\<rparr>))"
    by auto
  have i: "map_index rel v =
     (case map_index delta v of
        None \<Rightarrow> map_index (Relation a) v
      | Some True \<Rightarrow> Some True
      | Some False \<Rightarrow> None)" for v
  proof -
    have "map_index delta v = map_of (map_range delta) v"
      by (simp add: map_index_def map_range_def split: option.splits)
    with merge_loop_index [OF assms(2) m, of v] show ?thesis by simp
  qed
  let ?a' = "SetType (a\<lparr>Tail := tail, Head := head, Relation := rel\<rparr>)"
  have r: "Relation ?a' = rel" by (simp add: SetType_def)
  have "\<forall>v. map_index delta v = Some True \<longrightarrow> map_index rel v = Some True"
    by (simp add: i)
  moreover have "\<forall>v. map_index delta v = Some False \<longrightarrow> map_index rel v = None"
    by (simp add: i)
  moreover have "\<forall>v. map_index delta v = None \<longrightarrow> map_index rel v = map_index (Relation a) v"
    by (simp add: i)
  moreover have "(\<forall>v. map_index (Relation a) v \<noteq> Some False)
          \<longrightarrow> (\<forall>v. map_index rel v \<noteq> Some False)"
    by (auto simp: i split: option.splits bool.splits)
  ultimately show ?thesis using d r by simp
qed


lemma store_likes_doc:
  "docs store_likes (deriveKey user1 user2) =
     Some \<lparr>ArcType = ''arc'', Tail = user1, Head = user2,
            Relation = Some [(''like'', True), (''view'', True)],
            Options = \<lparr>Ord = 0\<rparr>, CreatedAt = 1\<rparr>"
  by (simp add: store_likes_def CreateArc_def db_Upsert_def empty_Store_def SetType_def
      zero_Arc_def OBJ_ARC_def MetaId_GetMeta)

lemma store_likes_unlocked: "locks store_likes = {}"
  by (simp add: store_likes_def CreateArc_def db_Upsert_def empty_Store_def Let_def)

lemma UpdateRelation_store_likes:
  "snd (UpdateRelation user1 user2 delta_follow_unlike store_likes) = None"
  by (simp add: UpdateRelation_def db_GetLock_def db_WriteUnlock_def Let_def store_likes_doc
      store_likes_unlocked delta_follow_unlike_def map_range_def map_assign_def map_delete_def
      MetaId_GetMeta deriveKey_key_Arc)

theorem UpdateRelation_merges_delta_witness:
  "docs store_likes (deriveKey user1 user2) \<noteq> None
   \<and> distinct (map fst (map_range delta_follow_unlike))
   \<and> snd (UpdateRelation user1 user2 delta_follow_unlike store_likes) = None
   \<and> map_index (Relation (the (docs (fst (UpdateRelation user1 user2 delta_follow_unlike
        store_likes)) (deriveKey user1 user2)))) ''follow'' = Some True
   \<and> map_index (Relation (the (docs (fst (UpdateRelation user1 user2 delta_follow_unlike
        store_likes)) (deriveKey user1 user2)))) ''like'' = None
   \<and> map_index (Relation (the (docs (fst (UpdateRelation user1 user2 delta_follow_unlike
        store_likes)) (deriveKey user1 user2)))) ''view'' = Some True"
proof -
  let ?s' = "fst (UpdateRelation user1 user2 delta_follow_unlike store_likes)"
  have h1: "docs store_likes (deriveKey user1 user2) \<noteq> None"
    by (simp add: store_likes_doc)
  have h2: "distinct (map fst (map_range delta_follow_unlike))"
    by (simp add: delta_follow_unlike_def map_range_def)
  have h3: "UpdateRelation user1 user2 delta_follow_unlike store_likes = (?s', None)"
    by (rule prod_eqI) (simp_all add: UpdateRelation_store_likes)
  from UpdateRelation_merges_delta [OF store_likes_doc h2 h3] obtain a' where
    d: "docs ?s' (deriveKey user1 user2) = Some a'"
    and t: "\<forall>v. map_index delta_follow_unlike v = Some True
              \<longrightarrow> map_index (Relation a') v = Some True"
    and f: "\<forall>v. map_index delta_follow_unlike v = Some False
              \<longrightarrow> map_index (Relation a') v = None"
    and k: "\<forall>v. map_index delta_follow_unlike v = None
              \<longrightarrow> map_index (Relation a') v
                  = map_index (Some [(''like'', True), (''view'', True)]) v"
    by auto
  have "map_index delta_follow_unlike ''follow'' = Some True"
    and "map_index delta_follow_unlike ''like'' = Some False"
    and "map_index delta_follow_unlike ''view'' = None"
    by (simp_all add: delta_follow_unlike_def map_index_def)
  with t f k have "map_index (Relation a') ''follow'' = Some True"
    and "map_index (Relation a') ''like'' = None"
    and "map_index (Relation a') ''view'' = Some True"
    by (simp_all add: map_index_def)
  moreover from d have "the (docs ?s' (deriveKey user1 user2)) = a'" by simp
  ultimately show ?thesis using h1 h2 UpdateRelation_store_likes by simp
qed

text \<open>
  The last part of the claim as the spec states it, that no persisted relation set ever
  contains a false entry, fails: \<open>CreateArc\<close> stores the relation set it is given as it
  is, and the merge leaves the verbs the delta does not mention untouched, a false entry
  among them.
\<close>

theorem UpdateRelation_persists_false_entry:
  "snd (UpdateRelation user1 user2 (Some [(''follow'', True)]) store_like_false) = None
   \<and> map_index (fst (GetRelation user1 user2
        (fst (UpdateRelation user1 user2 (Some [(''follow'', True)]) store_like_false))))
        ''like'' = Some False"
  by (simp add: store_like_false_def store_defs user1_def user2_def)

subsection \<open>Successive merges\<close>

text \<open>
  Two merges one after the other, as two calls that hold the lock of the arc in turn: the
  second delta is applied to the result of the first. When the two deltas mention
  different verbs, the stored relation set holds the true verbs of both, lacks the false
  verbs of both, and is the same in either order.
\<close>

lemma UpdateRelation_index:
  assumes "docs s (deriveKey tail head) = Some a"
    and "distinct (map fst (map_range delta))"
    and "UpdateRelation tail head delta s = (s', None)"
  shows "\<exists>a'. docs s' (deriveKey tail head) = Some a'
     \<and> (\<forall>v. map_index (Relation a') v =
           (case map_index delta v of
              None \<Rightarrow> map_index (Relation a) v
            | Some True \<Rightarrow> Some True
            | Some False \<Rightarrow> None))"
proof -
  from UpdateRelation_success [OF assms(3)] assms(1) obtain rel where
    m: "merge_loop (map_range delta) (Relation a) = Inr rel"
    and d: "docs s' (deriveKey tail head)
              = Some (SetType (a\<lparr>Tail := tail, Head := head, Relation := rel\<rparr>))"
    by auto
  have "map_index delta v = map_of (map_range delta) v" for v
    by (simp add: map_index_def map_range_def split: option.splits)
  with merge_loop_index [OF assms(2) m] d show ?thesis
    by (simp add: SetType_def)
qed

lemma UpdateRelation_sequential:
  assumes "docs s (deriveKey tail head) = Some a"
    and "distinct (map fst (map_range d1))" and "distinct (map fst (map_range d2))"
    and "UpdateRelation tail head d1 s = (s1, None)"
    and "UpdateRelation tail head d2 s1 = (s2, None)"
  shows "\<exists>a2. docs s2 (deriveKey tail head) = Some a2
     \<and> (\<forall>v. map_index (Relation a2) v =
           (case map_index d2 v of
              None \<Rightarrow> (case map_index d1 v of
                         None \<Rightarrow> map_index (Relation a) v
                       | Some True \<Rightarrow> Some True
                       | Some False \<Rightarrow> None)
            | Some True \<Rightarrow> Some True
            | Some False \<Rightarrow> None))"
proof -
  from UpdateRelation_index [OF assms(1,2,4)] obtain a1 where
    1: "docs s1 (deriveKey tail head) = Some a1"
    and i1: "\<forall>v. map_index (Relation a1) v =
           (case map_index d1 v of
              None \<Rightarrow> map_index (Relation a) v
            | Some True \<Rightarrow> Some True
            | Some False \<Rightarrow> None)"
    by blast
  from UpdateRelation_index [OF 1 assms(3,5)] obtain a2 where
    2: "docs s2 (deriveKey tail head) = Some a2"
    and i2: "\<forall>v. map_index (Relation a2) v =
           (case map_index d2 v of
              None \<Rightarrow> map_index (Relation a1) v
            | Some True \<Rightarrow> Some True
            | Some False \<Rightarrow> None)"
    by blast
  from i1 i2 have "\<forall>v. map_index (Relation a2) v =
           (case map_index d2 v of
              None \<Rightarrow> (case map_index d1 v of
                         None \<Rightarrow> map_index (Relation a) v
                       | Some True \<Rightarrow> Some True
                       | Some False \<Rightarrow> None)
            | Some True \<Rightarrow> Some True
            | Some False \<Rightarrow> None)"
    by (simp split: option.splits)
  with 2 show ?thesis by blast
qed

lemma UpdateRelation_disjoint_deltas:
  assumes "docs s (deriveKey tail head) = Some a"
    and "distinct (map fst (map_range d1))" and "distinct (map fst (map_range d2))"
    and disj: "\<forall>v. map_index d1 v = None \<or> map_index d2 v = None"
    and "UpdateRelation tail head d1 s = (s1, None)"
    and "UpdateRelation tail head d2 s1 = (s12, None)"
    and "UpdateRelation tail head d2 s = (s2, None)"
    and "UpdateRelation tail head d1 s2 = (s21, None)"
  shows "\<exists>x y. docs s12 (deriveKey tail head) = Some x
     \<and> docs s21 (deriveKey tail head) = Some y
     \<and> (\<forall>v. map_index (Relation x) v = map_index (Relation y) v)
     \<and> (\<forall>v. map_index d1 v = Some True \<or> map_index d2 v = Some True
            \<longrightarrow> map_index (Relation x) v = Some True)
     \<and> (\<forall>v. map_index d1 v = Some False \<or> map_index d2 v = Some False
            \<longrightarrow> map_index (Relation x) v = None)"
proof -
  from UpdateRelation_sequential [OF assms(1,2,3) assms(5,6)] obtain x where
    x: "docs s12 (deriveKey tail head) = Some x"
    and ix: "\<forall>v. map_index (Relation x) v =
           (case map_index d2 v of
              None \<Rightarrow> (case map_index d1 v of
                         None \<Rightarrow> map_index (Relation a) v
                       | Some True \<Rightarrow> Some True
                       | Some False \<Rightarrow> None)
            | Some True \<Rightarrow> Some True
            | Some False \<Rightarrow> None)"
    by blast
  from UpdateRelation_sequential [OF assms(1) assms(3,2) assms(7,8)] obtain y where
    y: "docs s21 (deriveKey tail head) = Some y"
    and iy: "\<forall>v. map_index (Relation y) v =
           (case map_index d1 v of
              None \<Rightarrow> (case map_index d2 v of
                         None \<Rightarrow> map_index (Relation a) v
                       | Some True \<Rightarrow> Some True
                       | Some False \<Rightarrow> None)
            | Some True \<Rightarrow> Some True
            | Some False \<Rightarrow> None)"
    by blast
  have "map_index (Relation x) v = map_index (Relation y) v" for v
    using ix [rule_format, of v] iy [rule_format, of v] disj [rule_format, of v]
    by (auto split: option.splits bool.splits)
  moreover have "map_index (Relation x) v = Some True"
    if "map_index d1 v = Some True \<or> map_index d2 v = Some True" for v
    using that ix [rule_format, of v] disj [rule_format, of v]
    by (auto split: option.splits bool.splits)
  moreover have "map_index (Relation x) v = None"
    if "map_index d1 v = Some False \<or> map_index d2 v = Some False" for v
    using that ix [rule_format, of v] disj [rule_format, of v]
    by (auto split: option.splits bool.splits)
  ultimately show ?thesis using x y by blast
qed

section \<open>Creation time\<close>

lemma CreateArc_doc:
  "CreateArc tail head r opts now s = (s', e) \<Longrightarrow>
   e = None \<and> locks s' = locks s
   \<and> docs s' = (docs s)(deriveKey tail head \<mapsto>
        \<lparr>ArcType = OBJ_ARC, Tail = tail, Head = head, Relation = r, Options = opts,
         CreatedAt = now\<rparr>)"
  by (auto simp: CreateArc_def db_Upsert_def Let_def MetaId_GetMeta SetType_def zero_Arc_def)

text \<open>
  Claim C3, as the code has it. \<open>CreateArc\<close> sets \<open>createdAt\<close> to the time of the call
  each time it runs: it upserts a new document, also over an arc that exists.
  A successful \<open>UpdateRelation\<close> on an arc that exists leaves \<open>createdAt\<close> as it was.
\<close>

theorem CreatedAt_set_by_CreateArc_kept_by_UpdateRelation:
  "(CreateArc tail head r opts now s = (s1, None)
      \<longrightarrow> (\<exists>a1. docs s1 (deriveKey tail head) = Some a1 \<and> CreatedAt a1 = now))
   \<and> (docs s (deriveKey tail head) = Some a \<and> UpdateRelation tail head delta s = (s2, None)
      \<longrightarrow> (\<exists>a2. docs s2 (deriveKey tail head) = Some a2 \<and> CreatedAt a2 = CreatedAt a))"
proof (intro conjI impI)
  assume "CreateArc tail head r opts now s = (s1, None)"
  from CreateArc_doc [OF this]
  show "\<exists>a1. docs s1 (deriveKey tail head) = Some a1 \<and> CreatedAt a1 = now"
    by simp
next
  assume h: "docs s (deriveKey tail head) = Some a \<and> UpdateRelation tail head delta s = (s2, None)"
  then have "UpdateRelation tail head delta s = (s2, None)" by simp
  from UpdateRelation_success [OF this] h
  show "\<exists>a2. docs s2 (deriveKey tail head) = Some a2 \<and> CreatedAt a2 = CreatedAt a"
    by (auto simp: SetType_def)
qed

theorem CreatedAt_witness:
  "snd (CreateArc user1 user2 (Some [(''like'', True), (''view'', True)]) \<lparr>Ord = 0\<rparr> 1
          empty_Store) = None
   \<and> CreatedAt (the (docs store_likes (deriveKey user1 user2))) = 1
   \<and> snd (UpdateRelation user1 user2 delta_follow_unlike store_likes) = None
   \<and> CreatedAt (the (docs (fst (UpdateRelation user1 user2 delta_follow_unlike store_likes))
        (deriveKey user1 user2))) = 1"
proof -
  let ?r = "Some [(''like'', True), (''view'', True)]"
  let ?s' = "fst (UpdateRelation user1 user2 delta_follow_unlike store_likes)"
  have c0: "snd (CreateArc user1 user2 ?r \<lparr>Ord = 0\<rparr> 1 empty_Store) = None"
    by (simp add: CreateArc_def db_Upsert_def Let_def)
  have c: "CreateArc user1 user2 ?r \<lparr>Ord = 0\<rparr> 1 empty_Store = (store_likes, None)"
    by (rule prod_eqI) (simp_all add: store_likes_def c0)
  have u: "UpdateRelation user1 user2 delta_follow_unlike store_likes = (?s', None)"
    by (rule prod_eqI) (simp_all add: UpdateRelation_store_likes)
  note t1 = CreatedAt_set_by_CreateArc_kept_by_UpdateRelation
    [where tail = user1 and head = user2 and r = ?r and opts = "\<lparr>Ord = 0\<rparr>" and now = 1
       and s = empty_Store and ?s1.0 = store_likes]
  note t2 = CreatedAt_set_by_CreateArc_kept_by_UpdateRelation
    [where tail = user1 and head = user2 and s = store_likes
       and delta = delta_follow_unlike and ?s2.0 = ?s']
  from t1 c obtain a1 where
    "docs store_likes (deriveKey user1 user2) = Some a1" and "CreatedAt a1 = 1"
    by blast
  then have 1: "CreatedAt (the (docs store_likes (deriveKey user1 user2))) = 1"
    by simp
  from t2 store_likes_doc u obtain a2 where
    "docs ?s' (deriveKey user1 user2) = Some a2"
    and "CreatedAt a2 = CreatedAt \<lparr>ArcType = ''arc'', Tail = user1, Head = user2,
            Relation = Some [(''like'', True), (''view'', True)],
            Options = \<lparr>Ord = 0\<rparr>, CreatedAt = 1\<rparr>"
    by blast
  then have 2: "CreatedAt (the (docs ?s' (deriveKey user1 user2))) = 1"
    by simp
  from c0 1 2 UpdateRelation_store_likes show ?thesis by simp
qed

text \<open>
  The claim as the spec states it fails: a second \<open>CreateArc\<close> on the same pair, at time
  \<open>2\<close>, replaces the creation time \<open>1\<close> of the arc.
\<close>

theorem CreateArc_twice_resets_CreatedAt:
  "CreatedAt (the (docs store_likes (deriveKey user1 user2))) = 1
   \<and> snd (CreateArc user1 user2 (Some [(''follow'', True)]) \<lparr>Ord = 0\<rparr> 2 store_likes) = None
   \<and> CreatedAt (the (docs (fst (CreateArc user1 user2 (Some [(''follow'', True)])
        \<lparr>Ord = 0\<rparr> 2 store_likes)) (deriveKey user1 user2))) = 2"
  by (simp add: store_likes_doc CreateArc_def db_Upsert_def Let_def MetaId_GetMeta
      SetType_def zero_Arc_def)

section \<open>The first merge on a pair\<close>

text \<open>
  On a pair without a document, the arc read under the lock is the literal
  \<open>key_Arc tail head\<close>, whose \<open>Relation\<close> is the nil map; the same holds for a document
  that \<open>CreateArc\<close> stored with a nil relation map. The first true verb of the delta
  is then assigned into a nil map.
\<close>

lemma UpdateRelation_absent_pair:
  assumes "docs s (deriveKey tail head) = None" and "deriveKey tail head \<notin> locks s"
    and "(v, True) \<in> set (map_range delta)"
  shows "UpdateRelation tail head delta s
         = (s\<lparr>locks := insert (deriveKey tail head) (locks s)\<rparr>, Some NilMapWrite)"
proof -
  from assms(1,2) have
    "db_GetLock (key_Arc tail head) s
     = (key_Arc tail head, deriveKey tail head,
        s\<lparr>locks := insert (deriveKey tail head) (locks s)\<rparr>, None)"
    by (simp add: db_GetLock_def Let_def MetaId_GetMeta deriveKey_key_Arc)
  moreover have "Relation (key_Arc tail head) = None"
    by (simp add: key_Arc_def zero_Arc_def)
  ultimately show ?thesis
    using assms(3) by (rule UpdateRelation_nil_relation)
qed

text \<open>
  Claim C5 at the pair \<open>(user1, user2)\<close> of the empty store and the delta
  \<open>{follow: true}\<close>: the locked read yields the zero-value arc with the nil relation map,
  and \<open>UpdateRelation\<close> ends in the runtime fault of a write to a nil map, with nothing
  persisted and the lock still held. The same happens on an arc stored by \<open>CreateArc\<close>
  with a nil relation map.
\<close>

theorem UpdateRelation_nil_map_fault:
  "db_GetLock (key_Arc user1 user2) empty_Store
     = (key_Arc user1 user2, deriveKey user1 user2,
        empty_Store\<lparr>locks := {deriveKey user1 user2}\<rparr>, None)
   \<and> Relation (key_Arc user1 user2) = None
   \<and> UpdateRelation user1 user2 follow_true empty_Store
     = (empty_Store\<lparr>locks := {deriveKey user1 user2}\<rparr>, Some NilMapWrite)
   \<and> docs (fst (UpdateRelation user1 user2 follow_true empty_Store)) (deriveKey user1 user2)
     = None
   \<and> snd (UpdateRelation user1 user2 follow_true
            (fst (CreateArc user1 user2 None \<lparr>Ord = 0\<rparr> 1 empty_Store)))
     = Some NilMapWrite"
proof -
  have e: "docs empty_Store (deriveKey user1 user2) = None"
    "deriveKey user1 user2 \<notin> locks empty_Store"
    by (simp_all add: empty_Store_def)
  have m: "(''follow'', True) \<in> set (map_range follow_true)"
    by (simp add: follow_true_def map_range_def)
  have u: "UpdateRelation user1 user2 follow_true empty_Store
     = (empty_Store\<lparr>locks := {deriveKey user1 user2}\<rparr>, Some NilMapWrite)"
    using UpdateRelation_absent_pair [OF e m] by (simp add: empty_Store_def)
  have g: "db_GetLock (key_Arc user1 user2) empty_Store
     = (key_Arc user1 user2, deriveKey user1 user2,
        empty_Store\<lparr>locks := {deriveKey user1 user2}\<rparr>, None)"
    by (simp add: db_GetLock_def Let_def MetaId_GetMeta deriveKey_key_Arc empty_Store_def)
  have n: "Relation (key_Arc user1 user2) = None"
    by (simp add: key_Arc_def zero_Arc_def)
  have c: "snd (UpdateRelation user1 user2 follow_true
            (fst (CreateArc user1 user2 None \<lparr>Ord = 0\<rparr> 1 empty_Store)))
     = Some NilMapWrite"
    by (simp add: UpdateRelation_def db_GetLock_def CreateArc_def db_Upsert_def Let_def
        MetaId_GetMeta deriveKey_key_Arc empty_Store_def zero_Arc_def SetType_def
        follow_true_def map_range_def map_assign_def)
  from u g n c show ?thesis by (simp add: empty_Store_def)
qed

text \<open>
  Claim C4 at the fresh pair \<open>(user1, user2)\<close> and the verb \<open>follow\<close>: the first call,
  with \<open>{follow: true}\<close>, faults on the nil map; the lock it took is never released, so
  the second call, with \<open>{follow: false}\<close>, cannot lock the arc, and no relation set is
  stored for the pair.
\<close>

theorem UpdateRelation_true_then_false_on_fresh_pair:
  "snd (UpdateRelation user1 user2 follow_true empty_Store) = Some NilMapWrite
   \<and> snd (UpdateRelation user1 user2 follow_false
            (fst (UpdateRelation user1 user2 follow_true empty_Store)))
     = Some LockContention
   \<and> docs (fst (UpdateRelation user1 user2 follow_false
            (fst (UpdateRelation user1 user2 follow_true empty_Store))))
        (deriveKey user1 user2) = None"
proof -
  have e: "docs empty_Store (deriveKey user1 user2) = None"
    "deriveKey user1 user2 \<notin> locks empty_Store"
    by (simp_all add: empty_Store_def)
  have m: "(''follow'', True) \<in> set (map_range follow_true)"
    by (simp add: follow_true_def map_range_def)
  have u: "UpdateRelation user1 user2 follow_true empty_Store
     = (empty_Store\<lparr>locks := {deriveKey user1 user2}\<rparr>, Some NilMapWrite)"
    using UpdateRelation_absent_pair [OF e m] by (simp add: empty_Store_def)
  show ?thesis
    by (simp add: u) (simp add: UpdateRelation_def db_GetLock_def Let_def MetaId_GetMeta
        deriveKey_key_Arc empty_Store_def)
qed

section \<open>Direction\<close>

lemma GetRelation_stored:
  "GetRelation tail head s =
     (case docs s (deriveKey tail head) of
        None \<Rightarrow> (None, Some NotFound)
      | Some a \<Rightarrow> (Relation a, None))"
  by (simp add: GetRelation_def db_Get_def MetaId_GetMeta deriveKey_key_Arc split: option.splits)

text \<open>
  An arc is stored under the key of its own direction only. After \<open>CreateArc\<close> from
  \<open>tail\<close> to \<open>head\<close>, and after a successful \<open>UpdateRelation\<close> on an arc that exists,
  the relation set is read back in that direction, and the opposite direction, when its
  key is another one and holds no document, still answers \<open>NotFound\<close>.
\<close>

lemma CreateArc_directional:
  assumes "deriveKey head tail \<noteq> deriveKey tail head"
    and "docs s (deriveKey head tail) = None"
    and "CreateArc tail head r opts now s = (s', e)"
  shows "GetRelation tail head s' = (r, None)
         \<and> GetRelation head tail s' = (None, Some NotFound)"
  using CreateArc_doc [OF assms(3)] assms(1,2) by (simp add: GetRelation_stored)






text \<open>
  On the empty store the first merge of \<open>{follow: true}\<close> between \<open>user1\<close> and \<open>user2\<close>
  is not successful, it faults on the nil relation map of the arc it is to create, and
  afterwards \<open>GetRelation\<close> answers \<open>NotFound\<close> in both directions.
\<close>

theorem UpdateRelation_then_GetRelation_on_fresh_pair:
  "docs empty_Store (deriveKey user1 user2) = None
   \<and> docs empty_Store (deriveKey user2 user1) = None
   \<and> snd (UpdateRelation user1 user2 follow_true empty_Store) = Some NilMapWrite
   \<and> GetRelation user1 user2 (fst (UpdateRelation user1 user2 follow_true empty_Store))
       = (None, Some NotFound)
   \<and> GetRelation user2 user1 (fst (UpdateRelation user1 user2 follow_true empty_Store))
       = (None, Some NotFound)"
proof -
  have e: "docs empty_Store (deriveKey user1 user2) = None"
    "deriveKey user1 user2 \<notin> locks empty_Store"
    by (simp_all add: empty_Store_def)
  have m: "(''follow'', True) \<in> set (map_range follow_true)"
    by (simp add: follow_true_def map_range_def)
  have u: "UpdateRelation user1 user2 follow_true empty_Store
     = (empty_Store\<lparr>locks := {deriveKey user1 user2}\<rparr>, Some NilMapWrite)"
    using UpdateRelation_absent_pair [OF e m] by (simp add: empty_Store_def)
  show ?thesis
    by (simp add: u GetRelation_stored) (simp add: empty_Store_def)
qed

section \<open>Paged listing\<close>

lemma decode_rows_Results:
  "i \<le> length (Results qr) \<Longrightarrow>
   decode_rows qr (int i) rows
     = Inr (qr\<lparr>Results := take i (Results qr) @ rows @ drop (i + length rows) (Results qr)\<rparr>)"
proof (induction rows arbitrary: qr i)
  case Nil
  then show ?case by simp
next
  case (Cons row rows)
  show ?case
  proof (cases "i < length (Results qr)")
    case True
    let ?qr = "qr\<lparr>Results := (Results qr)[i := row]\<rparr>"
    from True have g: "GetRowPtr qr (int i) = Inr (qr, Some i)"
      by (simp add: GetRowPtr_def)
    from True have "Suc i \<le> length (Results ?qr)" by simp
    from Cons.IH [OF this] have
      "decode_rows ?qr (int i + 1) rows
         = Inr (?qr\<lparr>Results := take (Suc i) (Results ?qr) @ rows
                   @ drop (Suc i + length rows) (Results ?qr)\<rparr>)"
      by (simp add: add.commute)
    moreover from True have "take (Suc i) ((Results qr)[i := row]) = take i (Results qr) @ [row]"
      by (simp add: take_Suc_conv_app_nth)
    ultimately show ?thesis using g by simp
  next
    case False
    with Cons.prems have l: "i = length (Results qr)" by simp
    let ?qr = "qr\<lparr>Results := Results qr @ [row]\<rparr>"
    from l have g: "GetRowPtr qr (int i) = Inr (qr\<lparr>Results := Results qr @ [zero_Node]\<rparr>, Some i)"
      by (simp add: GetRowPtr_def)
    from l have "Suc i \<le> length (Results ?qr)" by simp
    from Cons.IH [OF this] have
      "decode_rows ?qr (int i + 1) rows
         = Inr (?qr\<lparr>Results := take (Suc i) (Results ?qr) @ rows
                   @ drop (Suc i + length rows) (Results ?qr)\<rparr>)"
      by (simp add: add.commute)
    with g l show ?thesis by simp
  qed
qed

lemma ExecPagedQuery_rows:
  assumes "Scan db bucket stmt limit offset = Inr rows"
  shows "ExecPagedQuery db bucket qr stmt limit offset
         = (qr\<lparr>Results := rows @ drop (length rows) (Results qr)\<rparr>, int (length rows), None)"
  using decode_rows_Results [of 0 qr rows] assms by (simp add: ExecPagedQuery_def)

lemma ExecPagedQuery_error:
  assumes "Scan db bucket stmt limit offset = Inl e"
  shows "ExecPagedQuery db bucket qr stmt limit offset = (qr, 0, Some e)"
  using assms by (simp add: ExecPagedQuery_def)

lemma Query_page_rows:
  assumes "Scan db DEFAULT_BUCKET stmt limit offset = Inr rows"
  shows "Query_page db qr stmt limit offset
         = (qr\<lparr>Results := rows, PrevOffset := fmt_d offset,
                NextOffset := fmt_d (wrap64 (offset + int (length rows)))\<rparr>,
            int (length rows), None)"
  by (simp add: Query_page_def ExecPagedQuery_rows [OF assms] slice_to_def)

lemma Query_page_error:
  assumes "Scan db DEFAULT_BUCKET stmt limit offset = Inl e"
  shows "Query_page db qr stmt limit offset = (qr, 0, Some e)"
  by (simp add: Query_page_def ExecPagedQuery_error [OF assms])

lemma wrap64_id: "int64 i \<Longrightarrow> wrap64 i = i"
  by (simp add: wrap64_def int64_def)

lemma paged_page:
  assumes "paged rows limit offset = Inr page"
  shows "0 \<le> limit \<and> 0 \<le> offset \<and> page = take (nat limit) (drop (nat offset) rows)
         \<and> int (length page) \<le> limit
         \<and> (page \<noteq> [] \<longrightarrow> offset + int (length page) \<le> int (length rows))"
proof -
  from assms have l: "0 \<le> limit" and o: "0 \<le> offset"
    and p: "page = take (nat limit) (drop (nat offset) rows)"
    by (auto simp: paged_def split: if_splits)
  from p l have "int (length page) \<le> limit" by simp
  moreover have "offset + int (length page) \<le> int (length rows)" if "page \<noteq> []"
  proof -
    from that p have "nat offset < length rows" by (cases "nat offset < length rows") auto
    with p o show ?thesis by simp
  qed
  ultimately show ?thesis using l o p by blast
qed

lemma Query_page_paged:
  assumes scan: "Scan db DEFAULT_BUCKET stmt limit offset = paged rows limit offset"
    and ord: "sorted (map Name rows)"
    and bounds: "int64 offset" "int (length rows) < 2 ^ 63"
    and ok: "Query_page db qr stmt limit offset = (qr', sz, None)"
  shows "PrevOffset qr' = fmt_d offset \<and> NextOffset qr' = fmt_d (offset + sz)
         \<and> sz = int (length (Results qr')) \<and> sz \<le> limit
         \<and> Results qr' = take (nat limit) (drop (nat offset) rows)
         \<and> sorted (map Name (Results qr'))"
proof (cases "paged rows limit offset")
  case (Inl e)
  with scan ok Query_page_error [of db stmt limit offset e qr] show ?thesis by simp
next
  case (Inr page)
  note pg = paged_page [OF Inr]
  from scan Inr have "Scan db DEFAULT_BUCKET stmt limit offset = Inr page" by simp
  from Query_page_rows [OF this, of qr] ok
  have qr': "qr' = qr\<lparr>Results := page, PrevOffset := fmt_d offset,
                NextOffset := fmt_d (wrap64 (offset + int (length page)))\<rparr>"
    and sz: "sz = int (length page)"
    by simp_all
  have "int64 (offset + int (length page))"
  proof (cases "page = []")
    case True
    with bounds(1) show ?thesis by simp
  next
    case False
    with pg have "offset + int (length page) \<le> int (length rows)" by blast
    with bounds pg show ?thesis by (simp add: int64_def)
  qed
  then have w: "wrap64 (offset + int (length page)) = offset + int (length page)"
    by (rule wrap64_id)
  from pg have "sorted (map Name page)"
    using ord by (simp add: sorted_wrt_take sorted_wrt_drop take_map [symmetric] drop_map [symmetric]
        del: take_map drop_map)
  moreover from pg have "int (length page) \<le> limit"
    and "page = take (nat limit) (drop (nat offset) rows)"
    by blast+
  ultimately show ?thesis using qr' sz w by simp
qed

lemma QueryTails_stmt_Select:
  "QueryTails_stmt db head r =
     Select_text \<lparr>SelEndpoint = TailEnd, SelBucket = BucketName db DEFAULT_BUCKET,
       SelType = OBJ_ARC, SelKind = Type head, SelId = Id' head, SelVerb = r,
       SelOrdered = True\<rparr>"
  by (simp add: QueryTails_stmt_def Select_text_def)

lemma QueryHeads_stmt_Select:
  "QueryHeads_stmt db tail r =
     Select_text \<lparr>SelEndpoint = HeadEnd, SelBucket = BucketName db DEFAULT_BUCKET,
       SelType = OBJ_ARC, SelKind = Type tail, SelId = Id' tail, SelVerb = r,
       SelOrdered = True\<rparr>"
  by (simp add: QueryHeads_stmt_def Select_text_def)

lemma endpoint_of_eq: "endpoint_of TailEnd = Tail" "endpoint_of HeadEnd = Head"
  by (rule ext, simp)+

lemma Select_rows_ordered:
  "SelOrdered q \<Longrightarrow> sorted (map Name (Select_rows arcs q))"
  by (simp add: Select_rows_def Let_def)

lemma length_Select_rows: "length (Select_rows arcs q) \<le> length arcs"
  by (simp add: Select_rows_def Let_def)

text \<open>
  Claim C8. \<open>QueryTails\<close> sends the store the query that selects the tails of the arcs
  into \<open>head\<close> with the verb, ordered by the name of the tail. Let the store answer this
  query, at the limit and offset of the call, with the page of the rows the query has
  over the documents \<open>arcs\<close> of the bucket. Then a successful \<open>QueryTails\<close> returning
  \<open>sz\<close> rows carries \<open>PrevOffset = offset\<close> and \<open>NextOffset = offset + sz\<close>, as decimal
  numerals, and its \<open>Results\<close> are \<open>sz \<le> limit\<close> rows: the tails of the arcs whose head
  has the kind and id of \<open>head\<close> and whose relation set holds the verb, in ascending
  order of their names, from the position \<open>offset\<close> on. The same holds for
  \<open>QueryHeads\<close>, with the heads of the arcs out of \<open>tail\<close>, ordered by the name of the
  head. (The offset and the number of documents are Go \<^verbatim>\<open>int\<close>s.)
\<close>

theorem QueryTails_QueryHeads_page:
  assumes "int64 offset" and "int (length arcs) < 2 ^ 63"
  shows "(Scan db DEFAULT_BUCKET
            (Select_text \<lparr>SelEndpoint = TailEnd, SelBucket = BucketName db DEFAULT_BUCKET,
               SelType = OBJ_ARC, SelKind = Type head, SelId = Id' head, SelVerb = r,
               SelOrdered = True\<rparr>) limit offset
            = paged (Select_rows arcs
                \<lparr>SelEndpoint = TailEnd, SelBucket = BucketName db DEFAULT_BUCKET,
                 SelType = OBJ_ARC, SelKind = Type head, SelId = Id' head, SelVerb = r,
                 SelOrdered = True\<rparr>) limit offset
          \<and> QueryTails db qr head r limit offset = (qr1, sz1, None)
          \<longrightarrow> PrevOffset qr1 = fmt_d offset \<and> NextOffset qr1 = fmt_d (offset + sz1)
              \<and> sz1 = int (length (Results qr1)) \<and> sz1 \<le> limit
              \<and> Results qr1 = take (nat limit) (drop (nat offset)
                   (sort_key Name (map Tail (filter (\<lambda>a. ArcType a = OBJ_ARC
                      \<and> Type (Head a) = Type head \<and> Id' (Head a) = Id' head
                      \<and> map_index (Relation a) r = Some True) arcs))))
              \<and> sorted (map Name (Results qr1)))
       \<and> (Scan db DEFAULT_BUCKET
            (Select_text \<lparr>SelEndpoint = HeadEnd, SelBucket = BucketName db DEFAULT_BUCKET,
               SelType = OBJ_ARC, SelKind = Type tail, SelId = Id' tail, SelVerb = r,
               SelOrdered = True\<rparr>) limit offset
            = paged (Select_rows arcs
                \<lparr>SelEndpoint = HeadEnd, SelBucket = BucketName db DEFAULT_BUCKET,
                 SelType = OBJ_ARC, SelKind = Type tail, SelId = Id' tail, SelVerb = r,
                 SelOrdered = True\<rparr>) limit offset
          \<and> QueryHeads db qr tail r limit offset = (qr2, sz2, None)
          \<longrightarrow> PrevOffset qr2 = fmt_d offset \<and> NextOffset qr2 = fmt_d (offset + sz2)
              \<and> sz2 = int (length (Results qr2)) \<and> sz2 \<le> limit
              \<and> Results qr2 = take (nat limit) (drop (nat offset)
                   (sort_key Name (map Head (filter (\<lambda>a. ArcType a = OBJ_ARC
                      \<and> Type (Tail a) = Type tail \<and> Id' (Tail a) = Id' tail
                      \<and> map_index (Relation a) r = Some True) arcs))))
              \<and> sorted (map Name (Results qr2)))"
proof (intro conjI impI)
  let ?q = "\<lparr>SelEndpoint = TailEnd, SelBucket = BucketName db DEFAULT_BUCKET,
               SelType = OBJ_ARC, SelKind = Type head, SelId = Id' head, SelVerb = r,
               SelOrdered = True\<rparr>"
  assume "Scan db DEFAULT_BUCKET (Select_text ?q) limit offset
            = paged (Select_rows arcs ?q) limit offset
          \<and> QueryTails db qr head r limit offset = (qr1, sz1, None)"
  then have s: "Scan db DEFAULT_BUCKET (QueryTails_stmt db head r) limit offset
            = paged (Select_rows arcs ?q) limit offset"
    and q: "Query_page db qr (QueryTails_stmt db head r) limit offset = (qr1, sz1, None)"
    by (simp_all add: QueryTails_def QueryTails_stmt_Select)
  have o: "sorted (map Name (Select_rows arcs ?q))"
    by (rule Select_rows_ordered) simp
  from length_Select_rows [of arcs ?q] assms(2)
  have l: "int (length (Select_rows arcs ?q)) < 2 ^ 63" by simp
  have r: "Select_rows arcs ?q =
     sort_key Name (map Tail (filter (\<lambda>a. ArcType a = OBJ_ARC
        \<and> Type (Head a) = Type head \<and> Id' (Head a) = Id' head
        \<and> map_index (Relation a) r = Some True) arcs))"
  proof -
    have "Select_match ?q = (\<lambda>a. ArcType a = OBJ_ARC
        \<and> Type (Head a) = Type head \<and> Id' (Head a) = Id' head
        \<and> map_index (Relation a) r = Some True)"
      by (rule ext) (simp add: Select_match_def)
    then show ?thesis
      by (simp add: Select_rows_def Let_def endpoint_of_eq)
  qed
  from Query_page_paged [OF s o assms(1) l q, unfolded r]
  show "PrevOffset qr1 = fmt_d offset" "NextOffset qr1 = fmt_d (offset + sz1)"
    "sz1 = int (length (Results qr1))" "sz1 \<le> limit"
    "Results qr1 = take (nat limit) (drop (nat offset)
       (sort_key Name (map Tail (filter (\<lambda>a. ArcType a = OBJ_ARC
          \<and> Type (Head a) = Type head \<and> Id' (Head a) = Id' head
          \<and> map_index (Relation a) r = Some True) arcs))))"
    "sorted (map Name (Results qr1))"
    by blast+
next
  let ?q = "\<lparr>SelEndpoint = HeadEnd, SelBucket = BucketName db DEFAULT_BUCKET,
               SelType = OBJ_ARC, SelKind = Type tail, SelId = Id' tail, SelVerb = r,
               SelOrdered = True\<rparr>"
  assume "Scan db DEFAULT_BUCKET (Select_text ?q) limit offset
            = paged (Select_rows arcs ?q) limit offset
          \<and> QueryHeads db qr tail r limit offset = (qr2, sz2, None)"
  then have s: "Scan db DEFAULT_BUCKET (QueryHeads_stmt db tail r) limit offset
            = paged (Select_rows arcs ?q) limit offset"
    and q: "Query_page db qr (QueryHeads_stmt db tail r) limit offset = (qr2, sz2, None)"
    by (simp_all add: QueryHeads_def QueryHeads_stmt_Select)
  have o: "sorted (map Name (Select_rows arcs ?q))"
    by (rule Select_rows_ordered) simp
  from length_Select_rows [of arcs ?q] assms(2)
  have l: "int (length (Select_rows arcs ?q)) < 2 ^ 63" by simp
  have r: "Select_rows arcs ?q =
     sort_key Name (map Head (filter (\<lambda>a. ArcType a = OBJ_ARC
        \<and> Type (Tail a) = Type tail \<and> Id' (Tail a) = Id' tail
        \<and> map_index (Relation a) r = Some True) arcs))"
  proof -
    have "Select_match ?q = (\<lambda>a. ArcType a = OBJ_ARC
        \<and> Type (Tail a) = Type tail \<and> Id' (Tail a) = Id' tail
        \<and> map_index (Relation a) r = Some True)"
      by (rule ext) (simp add: Select_match_def)
    then show ?thesis
      by (simp add: Select_rows_def Let_def endpoint_of_eq)
  qed
  from Query_page_paged [OF s o assms(1) l q, unfolded r]
  show "PrevOffset qr2 = fmt_d offset" "NextOffset qr2 = fmt_d (offset + sz2)"
    "sz2 = int (length (Results qr2))" "sz2 \<le> limit"
    "Results qr2 = take (nat limit) (drop (nat offset)
       (sort_key Name (map Head (filter (\<lambda>a. ArcType a = OBJ_ARC
          \<and> Type (Tail a) = Type tail \<and> Id' (Tail a) = Id' tail
          \<and> map_index (Relation a) r = Some True) arcs))))"
    "sorted (map Name (Results qr2))"
    by blast+
qed

lemma Select_rows_follow_arcs:
  "Select_rows follow_arcs tails_of_user3 = [user1, user2]"
  "Select_rows follow_arcs heads_of_user3 = [user1, user2]"
  by (simp_all add: Select_rows_def Select_match_def Let_def follow_arcs_def follow_arc_def
      tails_of_user3_def heads_of_user3_def map_index_def user1_def user2_def user3_def)

lemma Select_of_user3:
  "\<lparr>SelEndpoint = TailEnd, SelBucket = BucketName db_follow DEFAULT_BUCKET,
     SelType = OBJ_ARC, SelKind = Type user3, SelId = Id' user3, SelVerb = ''follow'',
     SelOrdered = True\<rparr> = tails_of_user3"
  "\<lparr>SelEndpoint = HeadEnd, SelBucket = BucketName db_follow DEFAULT_BUCKET,
     SelType = OBJ_ARC, SelKind = Type user3, SelId = Id' user3, SelVerb = ''follow'',
     SelOrdered = True\<rparr> = heads_of_user3"
  by (simp_all add: tails_of_user3_def heads_of_user3_def db_follow_def db_default_def
      OBJ_ARC_def user3_def)

lemma Scan_db_follow:
  "Scan db_follow DEFAULT_BUCKET (Select_text tails_of_user3) limit offset
     = paged (Select_rows follow_arcs tails_of_user3) limit offset"
  "Scan db_follow DEFAULT_BUCKET (Select_text heads_of_user3) limit offset
     = paged (Select_rows follow_arcs heads_of_user3) limit offset"
  by (simp_all add: db_follow_def Select_text_def tails_of_user3_def heads_of_user3_def)

lemma QueryTails_db_follow:
  "QueryTails db_follow zero_NodeQueryResult user3 ''follow'' 2 1
     = (\<lparr>Results = [user2], NextOffset = ''2'', PrevOffset = ''1''\<rparr>, 1, None)"
proof -
  have "Scan db_follow DEFAULT_BUCKET (QueryTails_stmt db_follow user3 ''follow'') 2 1
        = Inr [user2]"
    by (simp add: QueryTails_stmt_Select Select_of_user3 Scan_db_follow
        Select_rows_follow_arcs paged_def)
  from Query_page_rows [OF this, of zero_NodeQueryResult] show ?thesis
    by (simp add: QueryTails_def zero_NodeQueryResult_def fmt_d_def wrap64_def)
qed

lemma QueryHeads_db_follow:
  "QueryHeads db_follow zero_NodeQueryResult user3 ''follow'' 2 1
     = (\<lparr>Results = [user2], NextOffset = ''2'', PrevOffset = ''1''\<rparr>, 1, None)"
proof -
  have "Scan db_follow DEFAULT_BUCKET (QueryHeads_stmt db_follow user3 ''follow'') 2 1
        = Inr [user2]"
    by (simp add: QueryHeads_stmt_Select Select_of_user3 Scan_db_follow
        Select_rows_follow_arcs paged_def)
  from Query_page_rows [OF this, of zero_NodeQueryResult] show ?thesis
    by (simp add: QueryHeads_def zero_NodeQueryResult_def fmt_d_def wrap64_def)
qed

theorem QueryTails_QueryHeads_page_witness:
  "int64 1 \<and> int (length follow_arcs) < 2 ^ 63
   \<and> snd (snd (QueryTails db_follow zero_NodeQueryResult user3 ''follow'' 2 1)) = None
   \<and> snd (snd (QueryHeads db_follow zero_NodeQueryResult user3 ''follow'' 2 1)) = None
   \<and> fst (snd (QueryTails db_follow zero_NodeQueryResult user3 ''follow'' 2 1)) = 1
   \<and> NextOffset (fst (QueryTails db_follow zero_NodeQueryResult user3 ''follow'' 2 1))
       = fmt_d (1 + 1)
   \<and> NextOffset (fst (QueryHeads db_follow zero_NodeQueryResult user3 ''follow'' 2 1))
       = fmt_d (1 + 1)
   \<and> Results (fst (QueryTails db_follow zero_NodeQueryResult user3 ''follow'' 2 1))
       = [user2]
   \<and> Results (fst (QueryHeads db_follow zero_NodeQueryResult user3 ''follow'' 2 1))
       = [user2]"
proof -
  let ?qr = "\<lparr>Results = [user2], NextOffset = ''2'', PrevOffset = ''1''\<rparr>"
  have i: "int64 1" by (simp add: int64_def)
  have l: "int (length follow_arcs) < 2 ^ 63" by (simp add: follow_arcs_def)
  note t = QueryTails_QueryHeads_page [OF i l, where db = db_follow and limit = 2
      and qr = zero_NodeQueryResult and head = user3 and tail = user3 and r = "''follow''"
      and ?qr1.0 = ?qr and ?sz1.0 = 1 and ?qr2.0 = ?qr and ?sz2.0 = 1,
      unfolded Select_of_user3]
  have ft: "filter (\<lambda>a. ArcType a = OBJ_ARC \<and> Type (Head a) = Type user3
        \<and> Id' (Head a) = Id' user3 \<and> map_index (Relation a) ''follow'' = Some True)
      follow_arcs = [follow_arc user2 user3, follow_arc user1 user3]"
    and fh: "filter (\<lambda>a. ArcType a = OBJ_ARC \<and> Type (Tail a) = Type user3
        \<and> Id' (Tail a) = Id' user3 \<and> map_index (Relation a) ''follow'' = Some True)
      follow_arcs = [follow_arc user3 user2, follow_arc user3 user1]"
    by (simp_all add: follow_arcs_def follow_arc_def OBJ_ARC_def map_index_def
        user1_def user2_def user3_def)
  from t Scan_db_follow(1) QueryTails_db_follow
  have 1: "NextOffset ?qr = fmt_d (1 + 1)"
    and 2: "Results ?qr = take (nat 2) (drop (nat 1)
       (sort_key Name (map Tail [follow_arc user2 user3, follow_arc user1 user3])))"
    unfolding ft by blast+
  from t Scan_db_follow(2) QueryHeads_db_follow
  have 3: "NextOffset ?qr = fmt_d (1 + 1)"
    and 4: "Results ?qr = take (nat 2) (drop (nat 1)
       (sort_key Name (map Head [follow_arc user3 user2, follow_arc user3 user1])))"
    unfolding fh by blast+
  have m: "map Tail [follow_arc user2 user3, follow_arc user1 user3] = [user2, user1]"
    "map Head [follow_arc user3 user2, follow_arc user3 user1] = [user2, user1]"
    by (simp_all add: follow_arc_def)
  have e: "take (nat 2) (drop (nat 1) (sort_key Name [user2, user1])) = [user2]"
    by (simp add: user1_def user2_def)
  let ?t = "QueryTails db_follow zero_NodeQueryResult user3 ''follow'' 2 1"
  let ?h = "QueryHeads db_follow zero_NodeQueryResult user3 ''follow'' 2 1"
  have "snd (snd ?t) = None" "snd (snd ?h) = None" "fst (snd ?t) = 1"
    by (simp_all add: QueryTails_db_follow QueryHeads_db_follow)
  moreover from 1 3 have "NextOffset (fst ?t) = fmt_d (1 + 1)"
    "NextOffset (fst ?h) = fmt_d (1 + 1)"
    by (simp_all only: QueryTails_db_follow QueryHeads_db_follow fst_conv)
  moreover from 2 [unfolded m e] have "Results (fst ?t) = [user2]"
    by (simp only: QueryTails_db_follow fst_conv)
  moreover from 4 [unfolded m e] have "Results (fst ?h) = [user2]"
    by (simp only: QueryHeads_db_follow fst_conv)
  ultimately show ?thesis using i l by blast
qed

section \<open>Unbounded iteration\<close>

lemma ExecPagedQuery_zero:
  "ExecPagedQuery db bucket zero_NodeQueryResult stmt limit offset =
     (case Scan db bucket stmt limit offset of
        Inl e \<Rightarrow> (zero_NodeQueryResult, 0, Some e)
      | Inr rows \<Rightarrow> (zero_NodeQueryResult\<lparr>Results := rows\<rparr>, int (length rows), None))"
  by (simp add: ExecPagedQuery_rows ExecPagedQuery_error zero_NodeQueryResult_def
      split: sum.splits)

lemma ForEach_loop_unfold:
  "ForEach_loop db stmt sz offset t =
     (if sz = QUERY_LIMIT_MAX db then
        (case Scan db DEFAULT_BUCKET stmt sz offset of
           Inl e \<Rightarrow> Some (t\<lparr>queries := queries t @ [(sz, offset)]\<rparr>, None)
         | Inr rows \<Rightarrow>
             ForEach_loop db stmt (int (length rows)) (wrap64 (offset + int (length rows)))
               (t\<lparr>cb_calls := cb_calls t @ rows, queries := queries t @ [(sz, offset)]\<rparr>))
      else Some (t, None))"
  by (subst ForEach_loop.simps)
    (simp add: ExecPagedQuery_zero for_index_def split: sum.splits)

lemma exhausted_for_error_simps [simp]:
  "QUERY_LIMIT_MAX (exhausted_for_error db) = QUERY_LIMIT_MAX db"
  "BucketName (exhausted_for_error db) = BucketName db"
  "Scan (exhausted_for_error db) bucket stmt limit offset =
     (case Scan db bucket stmt limit offset of Inl e \<Rightarrow> Inr [] | Inr rows \<Rightarrow> Inr rows)"
  by (simp_all add: exhausted_for_error_def)

lemma ForEach_loop_stop:
  "sz \<noteq> QUERY_LIMIT_MAX db \<Longrightarrow> ForEach_loop db stmt sz offset t = Some (t, None)"
  by (subst ForEach_loop_unfold) simp

lemma ForEach_loop_error:
  "Scan db DEFAULT_BUCKET stmt (QUERY_LIMIT_MAX db) offset = Inl e \<Longrightarrow>
   ForEach_loop db stmt (QUERY_LIMIT_MAX db) offset t
     = Some (t\<lparr>queries := queries t @ [(QUERY_LIMIT_MAX db, offset)]\<rparr>, None)"
  by (subst ForEach_loop_unfold) simp

lemma ForEach_loop_rows:
  "Scan db DEFAULT_BUCKET stmt (QUERY_LIMIT_MAX db) offset = Inr rows \<Longrightarrow>
   ForEach_loop db stmt (QUERY_LIMIT_MAX db) offset t
     = ForEach_loop db stmt (int (length rows)) (wrap64 (offset + int (length rows)))
         (t\<lparr>cb_calls := cb_calls t @ rows,
            queries := queries t @ [(QUERY_LIMIT_MAX db, offset)]\<rparr>)"
  by (subst ForEach_loop_unfold) simp

lemma ForEach_loop_exhausted_if_error:
  assumes "ForEach_loop db0 stmt0 sz0 offset0 t0 = Some y0"
  shows "QUERY_LIMIT_MAX db0 \<noteq> 0
     \<longrightarrow> ForEach_loop (exhausted_for_error db0) stmt0 sz0 offset0 t0 = Some y0"
proof (rule ForEach_loop.raw_induct [where P = "\<lambda>db stmt sz offset t y.
    QUERY_LIMIT_MAX db \<noteq> 0 \<longrightarrow> ForEach_loop (exhausted_for_error db) stmt sz offset t = Some y",
    OF _ assms], goal_cases)
  case (1 loop db stmt sz offset t y)
  note IH = 1(1) and body = 1(2)
  show ?case
  proof
    assume m: "QUERY_LIMIT_MAX db \<noteq> 0"
    let ?db = "exhausted_for_error db"
    show "ForEach_loop ?db stmt sz offset t = Some y"
    proof (cases "sz = QUERY_LIMIT_MAX db")
      case False
      with body have "y = (t, None)" by simp
      with False show ?thesis by (simp add: ForEach_loop_stop)
    next
      case True
      show ?thesis
      proof (cases "Scan db DEFAULT_BUCKET stmt sz offset")
        case (Inl e)
        with body True have y: "y = (t\<lparr>queries := queries t @ [(sz, offset)]\<rparr>, None)"
          by (simp add: ExecPagedQuery_zero)
        from Inl True have "Scan ?db DEFAULT_BUCKET stmt (QUERY_LIMIT_MAX ?db) offset = Inr []"
          by simp
        from ForEach_loop_rows [OF this, of t] m True y show ?thesis
          by (simp add: ForEach_loop_stop)
      next
        case (Inr rows)
        let ?t = "t\<lparr>cb_calls := cb_calls t @ rows, queries := queries t @ [(sz, offset)]\<rparr>"
        from body True Inr have
          "loop db stmt (int (length rows)) (wrap64 (offset + int (length rows))) ?t = Some y"
          by (simp add: ExecPagedQuery_zero for_index_def)
        from IH [OF this] m have
          "ForEach_loop ?db stmt (int (length rows)) (wrap64 (offset + int (length rows))) ?t
             = Some y"
          by simp
        moreover from Inr True
        have "Scan ?db DEFAULT_BUCKET stmt (QUERY_LIMIT_MAX ?db) offset = Inr rows"
          by simp
        from ForEach_loop_rows [OF this, of t] True
        have "ForEach_loop ?db stmt sz offset t
              = ForEach_loop ?db stmt (int (length rows)) (wrap64 (offset + int (length rows))) ?t"
          by simp
        ultimately show ?thesis by simp
      qed
    qed
  qed
qed

lemma ForEach_loop_error_if_exhausted:
  assumes "ForEach_loop db0 stmt0 sz0 offset0 t0 = Some y0"
  shows "\<forall>db. db0 = exhausted_for_error db \<longrightarrow> QUERY_LIMIT_MAX db \<noteq> 0
      \<longrightarrow> ForEach_loop db stmt0 sz0 offset0 t0 = Some y0"
proof (rule ForEach_loop.raw_induct [where P = "\<lambda>db' stmt sz offset t y.
    \<forall>db. db' = exhausted_for_error db \<longrightarrow> QUERY_LIMIT_MAX db \<noteq> 0
      \<longrightarrow> ForEach_loop db stmt sz offset t = Some y",
    OF _ assms], goal_cases)
  case (1 loop db' stmt sz offset t y)
  note IH = 1(1) and body = 1(2)
  show ?case
  proof (intro allI impI)
    fix db
    assume d: "db' = exhausted_for_error db" and m: "QUERY_LIMIT_MAX db \<noteq> 0"
    show "ForEach_loop db stmt sz offset t = Some y"
    proof (cases "sz = QUERY_LIMIT_MAX db")
      case False
      with body d have "y = (t, None)" by simp
      with False show ?thesis by (simp add: ForEach_loop_stop)
    next
      case True
      show ?thesis
      proof (cases "Scan db DEFAULT_BUCKET stmt sz offset")
        case (Inl e)
        let ?t = "t\<lparr>cb_calls := cb_calls t @ [], queries := queries t @ [(sz, offset)]\<rparr>"
        from body True Inl d have "loop db' stmt 0 (wrap64 (offset + 0)) ?t = Some y"
          by (simp add: ExecPagedQuery_zero for_index_def)
        from IH [OF this] d m have "ForEach_loop db stmt 0 (wrap64 (offset + 0)) ?t = Some y"
          by blast
        with m have "y = (?t, None)"
          by (simp add: ForEach_loop_stop)
        with ForEach_loop_error [of db stmt offset e t] Inl True show ?thesis
          by simp
      next
        case (Inr rows)
        let ?t = "t\<lparr>cb_calls := cb_calls t @ rows, queries := queries t @ [(sz, offset)]\<rparr>"
        from body True Inr d have
          "loop db' stmt (int (length rows)) (wrap64 (offset + int (length rows))) ?t = Some y"
          by (simp add: ExecPagedQuery_zero for_index_def)
        from IH [OF this] d m have
          "ForEach_loop db stmt (int (length rows)) (wrap64 (offset + int (length rows))) ?t
             = Some y"
          by blast
        with ForEach_loop_rows [of db stmt offset rows t] Inr True show ?thesis
          by simp
      qed
    qed
  qed
qed

lemma ForEach_loop_exhausted_for_error:
  assumes "QUERY_LIMIT_MAX db \<noteq> 0"
  shows "ForEach_loop (exhausted_for_error db) stmt sz offset t = ForEach_loop db stmt sz offset t"
proof (cases "ForEach_loop db stmt sz offset t")
  case None
  show ?thesis
  proof (cases "ForEach_loop (exhausted_for_error db) stmt sz offset t")
    case None
    with \<open>ForEach_loop db stmt sz offset t = None\<close> show ?thesis by simp
  next
    case (Some y)
    from ForEach_loop_error_if_exhausted [OF this] assms
    have "ForEach_loop db stmt sz offset t = Some y" by blast
    with None show ?thesis by simp
  qed
next
  case (Some y)
  from ForEach_loop_exhausted_if_error [OF this] assms Some show ?thesis by simp
qed

text \<open>
  The iteration over a store that answers the statement with the pages of one list of
  rows: the callback receives the rows from \<open>k\<close> on, each once and in the order of the
  list, and the queries are sent with the limit \<open>QUERY_LIMIT_MAX\<close> at the offsets
  \<open>k\<close>, \<open>k + QUERY_LIMIT_MAX\<close>, \<dots>, up to the first page that is not full.
\<close>

lemma page_queries_last: "0 < m \<Longrightarrow> n < nat m \<Longrightarrow> page_queries m k n = [(m, int k)]"
  by (simp add: page_queries_def)

lemma page_queries_step:
  assumes "0 < m" and "nat m \<le> n"
  shows "page_queries m k n = (m, int k) # page_queries m (k + nat m) (n - nat m)"
proof -
  from assms have "n div nat m = Suc ((n - nat m) div nat m)"
    by (simp add: le_div_geq)
  then have "page_queries m k n
    = map (\<lambda>i. (m, int k + int i * m)) [0..<Suc (Suc ((n - nat m) div nat m))]"
    by (simp add: page_queries_def)
  also have "\<dots> = (m, int k)
    # map (\<lambda>i. (m, int k + int (Suc i) * m)) [0..<Suc ((n - nat m) div nat m)]"
    by (subst map_upt_Suc) simp
  also from assms(1) have "map (\<lambda>i. (m, int k + int (Suc i) * m)) [0..<Suc ((n - nat m) div nat m)]
    = page_queries m (k + nat m) (n - nat m)"
    by (simp add: page_queries_def algebra_simps)
  finally show ?thesis .
qed

lemma ForEach_loop_paged:
  assumes m: "0 < QUERY_LIMIT_MAX db"
    and scan: "\<forall>limit offset. Scan db DEFAULT_BUCKET stmt limit offset = paged rows limit offset"
    and len: "int (length rows) < 2 ^ 63"
  shows "k \<le> length rows \<Longrightarrow>
    ForEach_loop db stmt (QUERY_LIMIT_MAX db) (int k) t
      = Some (t\<lparr>cb_calls := cb_calls t @ drop k rows,
                 queries := queries t @ page_queries (QUERY_LIMIT_MAX db) k (length rows - k)\<rparr>,
              None)"
proof (induction "length rows - k" arbitrary: k t rule: less_induct)
  case less
  let ?m = "QUERY_LIMIT_MAX db"
  let ?page = "take (nat ?m) (drop k rows)"
  let ?t = "t\<lparr>cb_calls := cb_calls t @ ?page, queries := queries t @ [(?m, int k)]\<rparr>"
  from m scan have "Scan db DEFAULT_BUCKET stmt ?m (int k) = Inr ?page"
    by (simp add: paged_def)
  from ForEach_loop_rows [OF this, of t]
  have step: "ForEach_loop db stmt ?m (int k) t
    = ForEach_loop db stmt (int (length ?page)) (wrap64 (int k + int (length ?page))) ?t"
    by simp
  show ?case
  proof (cases "nat ?m \<le> length rows - k")
    case True
    with m have lp: "int (length ?page) = ?m" by simp
    from True m less.prems len have "int64 (int k + ?m)"
      by (simp add: int64_def)
    then have w: "wrap64 (int k + ?m) = int (k + nat ?m)"
      using m by (simp add: wrap64_id)
    from True m less.prems have d: "length rows - (k + nat ?m) < length rows - k"
      and k: "k + nat ?m \<le> length rows"
      by simp_all
    from less.hyps [OF d k, of ?t] step lp w
    have "ForEach_loop db stmt ?m (int k) t
      = Some (?t\<lparr>cb_calls := cb_calls ?t @ drop (k + nat ?m) rows,
                  queries := queries ?t
                    @ page_queries ?m (k + nat ?m) (length rows - (k + nat ?m))\<rparr>, None)"
      by simp
    moreover have "?page @ drop (k + nat ?m) rows = drop k rows"
      by (simp add: add.commute [of k] drop_drop [symmetric] del: drop_drop)
    moreover from page_queries_step [OF m True, of k]
    have "page_queries ?m k (length rows - k)
      = (?m, int k) # page_queries ?m (k + nat ?m) (length rows - (k + nat ?m))"
      by (simp add: diff_diff_left)
    ultimately show ?thesis by simp
  next
    case False
    with m have lp: "int (length ?page) \<noteq> ?m" and pg: "?page = drop k rows"
      by auto
    from False m have "page_queries ?m k (length rows - k) = [(?m, int k)]"
      by (simp add: page_queries_last)
    with step lp pg show ?thesis
      by (simp add: ForEach_loop_stop)
  qed
qed






text \<open>
  Claim C7. The iterators have no result through which an error could be signalled. For
  a page size other than zero, a query that fails ends the iteration at once, with no
  further call of the callback and no fault, and what \<open>ForEachTail\<close> and \<open>ForEachHead\<close>
  do is what they do on the store that answers an exhausted result set, no rows,
  wherever the given store fails: the same calls of the callback, the same queries and
  the same return.
\<close>

theorem ForEach_query_error_is_silent:
  assumes "QUERY_LIMIT_MAX db \<noteq> 0"
  shows "ForEachTail db head r = ForEachTail (exhausted_for_error db) head r
       \<and> ForEachHead db tail r = ForEachHead (exhausted_for_error db) tail r
       \<and> (Scan db DEFAULT_BUCKET stmt (QUERY_LIMIT_MAX db) offset = Inl e
          \<longrightarrow> ForEach_loop db stmt (QUERY_LIMIT_MAX db) offset t
              = Some (t\<lparr>queries := queries t @ [(QUERY_LIMIT_MAX db, offset)]\<rparr>, None))"
proof (intro conjI impI)
  show "ForEachTail db head r = ForEachTail (exhausted_for_error db) head r"
    by (simp add: ForEachTail_def ForEachTail_stmt_def
        ForEach_loop_exhausted_for_error [OF assms])
  show "ForEachHead db tail r = ForEachHead (exhausted_for_error db) tail r"
    by (simp add: ForEachHead_def ForEachHead_stmt_def
        ForEach_loop_exhausted_for_error [OF assms])
next
  assume "Scan db DEFAULT_BUCKET stmt (QUERY_LIMIT_MAX db) offset = Inl e"
  then show "ForEach_loop db stmt (QUERY_LIMIT_MAX db) offset t
      = Some (t\<lparr>queries := queries t @ [(QUERY_LIMIT_MAX db, offset)]\<rparr>, None)"
    by (rule ForEach_loop_error)
qed

theorem ForEach_query_error_is_silent_witness:
  "QUERY_LIMIT_MAX db_failing \<noteq> 0
   \<and> Scan db_failing DEFAULT_BUCKET (ForEachTail_stmt db_failing user3 ''follow'') 2 2
       = Inl StoreError
   \<and> ForEachTail db_failing user3 ''follow''
       = Some (\<lparr>cb_calls = [user1, user2], queries = [(2, 0), (2, 2)]\<rparr>, None)
   \<and> ForEachTail (exhausted_for_error db_failing) user3 ''follow''
       = Some (\<lparr>cb_calls = [user1, user2], queries = [(2, 0), (2, 2)]\<rparr>, None)
   \<and> ForEachTail db_two_rows user3 ''follow''
       = Some (\<lparr>cb_calls = [user1, user2], queries = [(2, 0), (2, 2)]\<rparr>, None)"
proof -
  have m: "QUERY_LIMIT_MAX db_failing \<noteq> 0"
    by (simp add: db_failing_def db_default_def)
  have e: "Scan db_failing DEFAULT_BUCKET (ForEachTail_stmt db_failing user3 ''follow'') 2 2
       = Inl StoreError"
    by (simp add: db_failing_def)
  have m2: "QUERY_LIMIT_MAX db_failing = 2"
    by (simp add: db_failing_def db_default_def)
  let ?stmt = "ForEachTail_stmt db_failing user3 ''follow''"
  let ?t = "\<lparr>cb_calls = [user1, user2], queries = [(2, 0)]\<rparr>"
  note silent = ForEach_query_error_is_silent [OF m, where stmt = ?stmt and offset = 2
      and t = ?t and e = StoreError and head = user3 and r = "''follow''"]
  from silent e m2
  have 2: "ForEach_loop db_failing ?stmt 2 2 ?t
     = Some (\<lparr>cb_calls = [user1, user2], queries = [(2, 0), (2, 2)]\<rparr>, None)"
    by simp
  have "Scan db_failing DEFAULT_BUCKET ?stmt (QUERY_LIMIT_MAX db_failing) 0
        = Inr [user1, user2]"
    by (simp add: db_failing_def)
  from ForEach_loop_rows [OF this, of zero_Trace] 2 m2
  have f: "ForEachTail db_failing user3 ''follow''
       = Some (\<lparr>cb_calls = [user1, user2], queries = [(2, 0), (2, 2)]\<rparr>, None)"
    by (simp add: ForEachTail_def zero_Trace_def wrap64_def)
  from silent f
  have x: "ForEachTail (exhausted_for_error db_failing) user3 ''follow''
       = Some (\<lparr>cb_calls = [user1, user2], queries = [(2, 0), (2, 2)]\<rparr>, None)"
    by simp
  have m3: "0 < QUERY_LIMIT_MAX db_two_rows"
    by (simp add: db_two_rows_def db_default_def)
  have s: "\<forall>limit offset.
      Scan db_two_rows DEFAULT_BUCKET (ForEachTail_stmt db_two_rows user3 ''follow'')
        limit offset = paged [user1, user2] limit offset"
    by (simp add: db_two_rows_def)
  have l: "int (length [user1, user2]) < 2 ^ 63" by simp
  from ForEach_loop_paged [OF m3 s l, of 0 zero_Trace]
  have "ForEachTail db_two_rows user3 ''follow''
     = Some (\<lparr>cb_calls = [user1, user2], queries = [(2, 0), (2, 2)]\<rparr>, None)"
    by (simp add: ForEachTail_def zero_Trace_def page_queries_def db_two_rows_def
        db_default_def upt_rec [of 0] upt_rec [of 1])
  with f x m e show ?thesis by simp
qed

end
